theory Spec2Isabelle
  imports Complex_Main "HOL-Library.Multiset"
begin

section \<open>Common Python and array primitives\<close>

text \<open>
  Both notebooks are straight-line scripts over tables and arrays. Exceptions are values:
  a computation that can raise has the type \<open>error + 'a\<close>, with \<open>Inl\<close> the exception.
  Floating-point numbers are modelled as real numbers (no rounding, no NaN ordering);
  a missing value (NaN or None in a numeric column) is \<open>None\<close>.
\<close>

datatype error = ValueError | IndexError | ZeroDivisionError

text \<open>Running a raising function over a list: the first exception ends the loop.\<close>

fun traverse :: "('a \<Rightarrow> error + 'b) \<Rightarrow> 'a list \<Rightarrow> error + 'b list" where
  "traverse f [] = Inr []"
| "traverse f (x # xs) =
     (case f x of
        Inl e \<Rightarrow> Inl e
      | Inr v \<Rightarrow> (case traverse f xs of Inl e \<Rightarrow> Inl e | Inr vs \<Rightarrow> Inr (v # vs)))"

text \<open>Python's \<open>min\<close> and \<open>max\<close> over a sequence raise ValueError when it is empty.\<close>

definition py_min :: "'a::linorder list \<Rightarrow> error + 'a" where
  "py_min xs = (case xs of [] \<Rightarrow> Inl ValueError | x # r \<Rightarrow> Inr (fold min r x))"

definition py_max :: "'a::linorder list \<Rightarrow> error + 'a" where
  "py_max xs = (case xs of [] \<Rightarrow> Inl ValueError | x # r \<Rightarrow> Inr (fold max r x))"

text \<open>Python's \<open>a / b\<close> on floats raises ZeroDivisionError for a zero divisor.\<close>

definition py_truediv :: "real \<Rightarrow> real \<Rightarrow> error + real" where
  "py_truediv a b = (if b = 0 then Inl ZeroDivisionError else Inr (a / b))"

text \<open>
  \<open>Series.unique()\<close>: the distinct values in the order of their first occurrence
  (a scan that keeps a value when it has not been seen before).
\<close>

fun unique_from :: "'a list \<Rightarrow> 'a list \<Rightarrow> 'a list" where
  "unique_from seen [] = []"
| "unique_from seen (x # xs) =
     (if x \<in> set seen then unique_from seen xs else x # unique_from (x # seen) xs)"

definition unique :: "'a list \<Rightarrow> 'a list" where
  "unique xs = unique_from [] xs"

text \<open>\<open>enumerate(xs)\<close> and a dict comprehension (a later pair overwrites an earlier one).\<close>

definition enumerate_list :: "'a list \<Rightarrow> (nat \<times> 'a) list" where
  "enumerate_list xs = zip [0..<length xs] xs"

definition dict_of :: "('k \<times> 'v) list \<Rightarrow> ('k \<rightharpoonup> 'v)" where
  "dict_of kvs = fold (\<lambda>(k, v) m. m(k \<mapsto> v)) kvs Map.empty"

text \<open>
  \<open>np.argsort\<close> returns a permutation of the indices of its argument that lists the
  values in ascending order. The default sort kind does not fix the order among equal
  values, so the scripts are modelled over any function \<open>srt\<close> with this contract
  (\<open>is_argsort\<close>); \<open>argsort\<close> is the stable one of them.
\<close>

definition is_argsort :: "('a::linorder list \<Rightarrow> nat list) \<Rightarrow> bool" where
  "is_argsort srt =
     (\<forall>xs. mset (srt xs) = mset [0..<length xs] \<and> sorted (map (nth xs) (srt xs)))"

definition argsort :: "'a::linorder list \<Rightarrow> nat list" where
  "argsort xs = sort_key (nth xs) [0..<length xs]"

text \<open>
  What a selection \<open>sel\<close> of the \<open>k\<close> highest entries of \<open>row\<close> in descending order is:
  \<open>k\<close> distinct indices of the row (all of them when the row is shorter), each entry no
  smaller than the next selected one, and no index left out has a greater entry than a
  selected one.
\<close>

definition is_top_k :: "nat \<Rightarrow> 'a::linorder list \<Rightarrow> nat list \<Rightarrow> bool" where
  "is_top_k k row sel =
     (length sel = min k (length row) \<and> distinct sel \<and> (\<forall>s\<in>set sel. s < length row)
      \<and> (\<forall>j. Suc j < length sel \<longrightarrow> row ! (sel ! Suc j) \<le> row ! (sel ! j))
      \<and> (\<forall>u<length row. u \<notin> set sel \<longrightarrow> (\<forall>s\<in>set sel. row ! u \<le> row ! s)))"

text \<open>
  Python slices. \<open>xs[:stop:-1]\<close> walks down from the last element to the one after
  position \<open>stop\<close>; \<open>xs[start:]\<close> is the tail from \<open>start\<close>; a negative bound counts
  from the end and an out-of-range bound is clipped. \<open>xs[::-1]\<close> is \<open>rev xs\<close>.
\<close>

definition slice_down_to :: "'a list \<Rightarrow> int \<Rightarrow> 'a list" where
  "slice_down_to xs stop =
     (let n = int (length xs);
          lo = (if stop < 0 then max (stop + n) (- 1) else min stop (n - 1))
      in map (nth xs) (rev [nat (lo + 1)..<length xs]))"

definition slice_from :: "'a list \<Rightarrow> int \<Rightarrow> 'a list" where
  "slice_from xs start =
     (let n = int (length xs);
          lo = (if start < 0 then max (start + n) 0 else min start n)
      in drop (nat lo) xs)"

text \<open>The median of a numeric column without its missing values; NaN when none is left.\<close>

definition median :: "real list \<Rightarrow> real option" where
  "median xs =
     (if xs = [] then None
      else let s = sort xs; n = length s
           in if odd n then Some (s ! (n div 2))
              else Some ((s ! (n div 2 - 1) + s ! (n div 2)) / 2))"

text \<open>
  A left merge on the customer id: the left rows in their order, each paired with every
  right row of the same id in the right order, or with no right row (\<open>None\<close>: every
  right column is NaN) when the id does not occur on the right.
\<close>

definition merge_left :: "(int \<times> 'a) list \<Rightarrow> (int \<times> 'b) list \<Rightarrow> (int \<times> 'a \<times> 'b option) list" where
  "merge_left left right =
     concat (map (\<lambda>(k, a).
        (case filter (\<lambda>(k', b). k' = k) right of
           [] \<Rightarrow> [(k, a, None)]
         | ms \<Rightarrow> map (\<lambda>(k', b). (k, a, Some b)) ms)) left)"

text \<open>\<open>fillna(0)\<close> on one cell.\<close>

definition fillna0 :: "real option \<Rightarrow> real" where
  "fillna0 c = (case c of None \<Rightarrow> 0 | Some v \<Rightarrow> v)"

text \<open>
  \<open>np.array(cols).T\<close> for a list of equally long columns, and \<open>np.array(rows)[:, i]\<close>,
  which raises IndexError when the array is not two-dimensional (no row, or rows of
  different lengths) or has no column \<open>i\<close>.
\<close>

definition np_transpose :: "'a list list \<Rightarrow> 'a list list" where
  "np_transpose cols =
     (case cols of [] \<Rightarrow> [] | c # _ \<Rightarrow> map (\<lambda>i. map (\<lambda>col. col ! i) cols) [0..<length c])"

definition np_column :: "'a list list \<Rightarrow> nat \<Rightarrow> error + 'a list" where
  "np_column rows i =
     (case rows of
        [] \<Rightarrow> Inl IndexError
      | r # _ \<Rightarrow>
          if (\<forall>q\<in>set rows. length q = length r) \<and> i < length r
          then Inr (map (\<lambda>q. q ! i) rows) else Inl IndexError)"

text \<open>
  \<open>str.strip()\<close> and \<open>int(s)\<close>. A string is the list of its code points, each below
  256. \<open>str.strip()\<close> removes the leading and trailing characters that \<open>str.isspace\<close>
  accepts: the space, 0x09 to 0x0D, 0x1C to 0x1F, 0x85 and 0xA0. \<open>int(s)\<close> skips
  surrounding whitespace of its own, which leaves out 0x1C to 0x1F; it then reads an
  optional sign and decimal digits, where single underscores may stand between digits.
  Anything else raises ValueError.
\<close>

definition is_space :: "char \<Rightarrow> bool" where
  "is_space c =
     (c \<in> set [CHR '' '', CHR 0x09, CHR 0x0A, CHR 0x0B, CHR 0x0C, CHR 0x0D,
               CHR 0x1C, CHR 0x1D, CHR 0x1E, CHR 0x1F, CHR 0x85, CHR 0xA0])"

definition int_space :: "char \<Rightarrow> bool" where
  "int_space c =
     (c \<in> set [CHR '' '', CHR 0x09, CHR 0x0A, CHR 0x0B, CHR 0x0C, CHR 0x0D, CHR 0x85, CHR 0xA0])"

definition strip_by :: "(char \<Rightarrow> bool) \<Rightarrow> string \<Rightarrow> string" where
  "strip_by sp s = rev (dropWhile sp (rev (dropWhile sp s)))"

definition strip :: "string \<Rightarrow> string" where
  "strip s = strip_by is_space s"

definition digit_of :: "char \<Rightarrow> nat option" where
  "digit_of c = map_of (zip ''0123456789'' [0..<10]) c"

fun digits_ok :: "string \<Rightarrow> bool" where
  "digits_ok [] = False"
| "digits_ok [c] = (digit_of c \<noteq> None)"
| "digits_ok (c # d # r) =
     (if digit_of c \<noteq> None then
        (if d = CHR ''_'' then digits_ok r else digits_ok (d # r))
      else False)"

definition digits_value :: "string \<Rightarrow> nat" where
  "digits_value ds = fold (\<lambda>c n. case digit_of c of None \<Rightarrow> n | Some d \<Rightarrow> 10 * n + d) ds 0"

definition py_int :: "string \<Rightarrow> error + int" where
  "py_int s =
     (let t = strip_by int_space s;
          neg = (t \<noteq> [] \<and> hd t = CHR ''-'');
          ds = (if t \<noteq> [] \<and> (hd t = CHR ''-'' \<or> hd t = CHR ''+'') then tl t else t)
      in if digits_ok ds
         then Inr (if neg then - int (digits_value ds) else int (digits_value ds))
         else Inl ValueError)"

section \<open>Collaborative filtering notebook (MovieLens)\<close>

subsection \<open>Encoding of user and movie ids\<close>

text \<open>
  \<^verbatim>\<open>user_ids = df["userId"].unique().tolist()\<close>
  \<^verbatim>\<open>user2user_encoded = {x: i for i, x in enumerate(user_ids)}\<close>
  \<^verbatim>\<open>userencoded2user = {i: x for i, x in enumerate(user_ids)}\<close>
  and the same three lines for \<open>movieId\<close>.
\<close>

definition user_ids :: "int list \<Rightarrow> int list" where
  "user_ids userId = unique userId"

definition user2user_encoded :: "int list \<Rightarrow> (int \<rightharpoonup> nat)" where
  "user2user_encoded userId = dict_of (map (\<lambda>(i, x). (x, i)) (enumerate_list (user_ids userId)))"

definition userencoded2user :: "int list \<Rightarrow> (nat \<rightharpoonup> int)" where
  "userencoded2user userId = dict_of (map (\<lambda>(i, x). (i, x)) (enumerate_list (user_ids userId)))"

definition movie_ids :: "int list \<Rightarrow> int list" where
  "movie_ids movieId = unique movieId"

definition movie2movie_encoded :: "int list \<Rightarrow> (int \<rightharpoonup> nat)" where
  "movie2movie_encoded movieId =
     dict_of (map (\<lambda>(i, x). (x, i)) (enumerate_list (movie_ids movieId)))"

definition movie_encoded2movie :: "int list \<Rightarrow> (nat \<rightharpoonup> int)" where
  "movie_encoded2movie movieId =
     dict_of (map (\<lambda>(i, x). (i, x)) (enumerate_list (movie_ids movieId)))"

subsection \<open>Rating normalization\<close>

text \<open>
  \<^verbatim>\<open>min_rating = min(df["rating"])\<close>, \<^verbatim>\<open>max_rating = max(df["rating"])\<close>,
  then, after the rows have been shuffled by \<open>df.sample(frac=1)\<close>,
  \<^verbatim>\<open>y = df["rating"].apply(lambda x: (x - min_rating) / (max_rating - min_rating)).values\<close>.
  The shuffled column is the second argument; the array \<open>y\<close> is \<open>y_targets\<close> here.
\<close>

definition min_rating :: "real list \<Rightarrow> error + real" where
  "min_rating rating = py_min rating"

definition max_rating :: "real list \<Rightarrow> error + real" where
  "max_rating rating = py_max rating"

definition normalize_rating :: "real \<Rightarrow> real \<Rightarrow> real \<Rightarrow> error + real" where
  "normalize_rating mn mx x = py_truediv (x - mn) (mx - mn)"

definition y_targets :: "real list \<Rightarrow> real list \<Rightarrow> error + real list" where
  "y_targets rating sampled =
     (case min_rating rating of
        Inl e \<Rightarrow> Inl e
      | Inr mn \<Rightarrow>
          (case max_rating rating of
             Inl e \<Rightarrow> Inl e
           | Inr mx \<Rightarrow> traverse (normalize_rating mn mx) sampled))"

subsection \<open>Top ten recommendations\<close>

text \<open>\<^verbatim>\<open>top_ratings_indices = ratings.argsort()[-10:][::-1]\<close>\<close>

definition top_ratings_indices :: "('a::linorder list \<Rightarrow> nat list) \<Rightarrow> 'a list \<Rightarrow> nat list" where
  "top_ratings_indices srt ratings = rev (slice_from (srt ratings) (- 10))"

section \<open>Product recommendation notebook (Santander)\<close>

subsection \<open>Products\<close>

definition products :: "string list" where
  "products =
     [''ind_ahor_fin_ult1'', ''ind_aval_fin_ult1'', ''ind_cco_fin_ult1'',
      ''ind_cder_fin_ult1'', ''ind_cno_fin_ult1'', ''ind_ctju_fin_ult1'',
      ''ind_ctma_fin_ult1'', ''ind_ctop_fin_ult1'', ''ind_ctpp_fin_ult1'',
      ''ind_deco_fin_ult1'', ''ind_deme_fin_ult1'', ''ind_dela_fin_ult1'',
      ''ind_ecue_fin_ult1'', ''ind_fond_fin_ult1'', ''ind_hip_fin_ult1'',
      ''ind_plan_fin_ult1'', ''ind_pres_fin_ult1'', ''ind_reca_fin_ult1'',
      ''ind_tjcr_fin_ult1'', ''ind_valo_fin_ult1'', ''ind_viv_fin_ult1'',
      ''ind_nomina_ult1'', ''ind_nom_pens_ult1'', ''ind_recibo_ult1'']"

definition rec_products :: "string list" where
  "rec_products =
     [''ind_recibo_ult1'', ''ind_cco_fin_ult1'', ''ind_nom_pens_ult1'',
      ''ind_nomina_ult1'', ''ind_tjcr_fin_ult1'', ''ind_ecue_fin_ult1'',
      ''ind_cno_fin_ult1'', ''ind_ctma_fin_ult1'', ''ind_reca_fin_ult1'',
      ''ind_ctop_fin_ult1'', ''ind_ctpp_fin_ult1'', ''ind_valo_fin_ult1'']"

subsection \<open>Reading one month of the training file\<close>

text \<open>
  A line of \<open>train_ver2.csv\<close> as \<open>get_data_by_month\<close> reads it with
  \<open>features = ['ncodpers']\<close>: the month, the customer id and the value of every product
  column (\<open>None\<close> for an empty field). \<open>dates\<close> is the month column of the same file.

  \<^verbatim>\<open>ids = dates.index[dates.fecha_dato.isin(months)]\<close>
  \<^verbatim>\<open>return pd.read_csv(..., skiprows=range(1, ids[0]+1), nrows=len(ids), header=0)\<close>
  \<open>ids[0]\<close> raises IndexError when no line is of one of the months.
\<close>

record csv_row =
  fecha_dato :: string
  ncodpers :: int
  flags :: "string \<Rightarrow> real option"

definition get_data_by_month :: "csv_row list \<Rightarrow> string list \<Rightarrow> error + csv_row list" where
  "get_data_by_month csv months =
     (let dates = map fecha_dato csv;
          ids = filter (\<lambda>i. dates ! i \<in> set months) [0..<length dates]
      in case ids of
           [] \<Rightarrow> Inl IndexError
         | i0 # _ \<Rightarrow> Inr (take (length ids) (drop i0 csv)))"

subsection \<open>Labels: the products added since the prior month\<close>

text \<open>
  \<^verbatim>\<open>intsec = np.intersect1d(data.ncodpers, pdata.ncodpers)\<close>
  \<^verbatim>\<open>merged = pd.merge(data, pdata, how='left', on='ncodpers')\<close>
  \<^verbatim>\<open>merged.fillna(0, inplace=True)\<close>
  \<^verbatim>\<open>for i, pr in enumerate(rec_products):\<close>
  \<^verbatim>\<open>    added[pr] = merged.loc[:, pr + '_x'] - merged.loc[:, pr + '_y']\<close>
  \<^verbatim>\<open>    added.loc[added[pr] == -1, pr] = 0\<close>
  \<^verbatim>\<open>return added.drop(['ncodpers'], axis=1)\<close>
  In a merged row \<open>(k, a, b)\<close> the column \<open>pr_x\<close> is \<open>a pr\<close> and the column \<open>pr_y\<close> is
  \<open>p pr\<close> for \<open>b = Some p\<close>, NaN for \<open>b = None\<close>. The result has one row of twelve labels
  per merged row.
\<close>

definition added_label :: "real \<Rightarrow> real \<Rightarrow> real" where
  "added_label x y = (let d = x - y in if d = - 1 then 0 else d)"

definition col_x :: "int \<times> (string \<Rightarrow> real option) \<times> (string \<Rightarrow> real option) option \<Rightarrow> string \<Rightarrow> real" where
  "col_x m pr = (case m of (k, a, b) \<Rightarrow> fillna0 (a pr))"

definition col_y :: "int \<times> (string \<Rightarrow> real option) \<times> (string \<Rightarrow> real option) option \<Rightarrow> string \<Rightarrow> real" where
  "col_y m pr = (case m of (k, a, b) \<Rightarrow> fillna0 (case b of None \<Rightarrow> None | Some p \<Rightarrow> p pr))"

definition get_new_products :: "csv_row list \<Rightarrow> csv_row list \<Rightarrow> real list list" where
  "get_new_products data pdata =
     (let intsec = sort (remdups (filter (\<lambda>k. k \<in> set (map ncodpers pdata)) (map ncodpers data)));
          merged = merge_left (map (\<lambda>r. (ncodpers r, flags r)) data)
                     (map (\<lambda>r. (ncodpers r, flags r)) pdata)
      in map (\<lambda>m. map (\<lambda>pr. added_label (col_x m pr) (col_y m pr)) rec_products) merged)"

text \<open>
  The label rows that one row \<open>r\<close> of the current month gives rise to, written out: one
  per prior-month row of the same customer, or one against a prior month of zeros when
  the customer has no prior-month row.
\<close>

definition label_rows :: "csv_row list \<Rightarrow> csv_row \<Rightarrow> real list list" where
  "label_rows pdata r =
     (case filter (\<lambda>p. ncodpers p = ncodpers r) pdata of
        [] \<Rightarrow> [map (\<lambda>pr. added_label (fillna0 (flags r pr)) 0) rec_products]
      | ms \<Rightarrow> map (\<lambda>p. map (\<lambda>pr. added_label (fillna0 (flags r pr)) (fillna0 (flags p pr)))
                       rec_products) ms)"

subsection \<open>Lagged product features\<close>

text \<open>
  \<^verbatim>\<open>for month in months:\<close>
  \<^verbatim>\<open>    temp_data = get_data_by_month(dates, [month], ['ncodpers'], products)\<close>
  \<^verbatim>\<open>    i = months.index(month)\<close>
  \<^verbatim>\<open>    merged = pd.merge(merged, temp_data, how='left', on='ncodpers', suffixes=[i, i+1])\<close>
  \<^verbatim>\<open>    merged.fillna(0, inplace=True)\<close>
  \<^verbatim>\<open>return merged\<close>
  A row of the feature table is the customer id with the cells of the other columns in
  column order. A join appends the product columns of the month (\<open>month_cells\<close>: NaN
  in each of them when the customer has no row in the month) and \<open>fillna(0)\<close> then runs
  over the whole table; \<open>i\<close> only enters the names of the columns, which are not
  modelled.
\<close>

type_synonym feature_row = "int \<times> real option list"

definition month_cells :: "(string \<Rightarrow> real option) option \<Rightarrow> real option list" where
  "month_cells b =
     (case b of None \<Rightarrow> replicate (length products) None | Some p \<Rightarrow> map p products)"

definition join_month :: "feature_row list \<Rightarrow> csv_row list \<Rightarrow> feature_row list" where
  "join_month merged temp_data =
     map (\<lambda>(k, a, b). (k, map (\<lambda>c. Some (fillna0 c)) (a @ month_cells b)))
       (merge_left merged (map (\<lambda>r. (ncodpers r, flags r)) temp_data))"

fun get_temp_features :: "csv_row list \<Rightarrow> feature_row list \<Rightarrow> string list \<Rightarrow> error + feature_row list" where
  "get_temp_features csv merged [] = Inr merged"
| "get_temp_features csv merged (month # months) =
     (case get_data_by_month csv [month] of
        Inl e \<Rightarrow> Inl e
      | Inr temp_data \<Rightarrow> get_temp_features csv (join_month merged temp_data) months)"

text \<open>
  What is said of the result of the joins: a table has no missing value; a row \<open>r'\<close>
  extends a row \<open>r\<close> by \<open>m\<close> months when it has the same customer id, the cells of
  \<open>r\<close> first (a missing one filled with zero) and \<open>m\<close> times the product columns after
  them.
\<close>

definition no_missing :: "feature_row list \<Rightarrow> bool" where
  "no_missing t = (\<forall>r\<in>set t. None \<notin> set (snd r))"

definition extends_row :: "nat \<Rightarrow> feature_row \<Rightarrow> feature_row \<Rightarrow> bool" where
  "extends_row m r r' =
     (fst r' = fst r \<and> length (snd r') = length (snd r) + m * length products
      \<and> map fillna0 (take (length (snd r)) (snd r')) = map fillna0 (snd r))"

subsection \<open>Imputation of the customer features\<close>

text \<open>
  The columns of \<open>data\<close> that the imputation steps of \<open>get_features\<close> read and write.
  A column of dtype int64 or float64 is \<open>Numeric\<close> (\<open>None\<close> is NaN); a column that
  \<open>read_csv\<close> left as text has the dtype object and is \<open>Object\<close>, its entries being
  strings (\<open>Some s\<close>) or other objects such as a float NaN (\<open>None\<close>). A raw \<open>renta\<close> entry is a number, a string or NaN. The type parameters are
  the types of the age and antiguedad columns, of a renta entry and of a segmento entry,
  before and after the steps.
\<close>

datatype column = Numeric "real option list" | Object "string option list"

datatype raw = Num real | Str string | NaN

record ('c, 'r, 's) client_data =
  antiguedad :: 'c
  age :: 'c
  cod_prov :: "real option list"
  renta :: "'r list"
  segmento :: "'s list"

text \<open>
  \<^verbatim>\<open>if data.age.dtype != np.int64 and data.age.dtype != np.float64:\<close>
  \<^verbatim>\<open>    data['age'] = data.age.str.strip()\<close>
  \<^verbatim>\<open>    data['age'] = data.age.map(lambda x: None if x=='NA' else int(x))\<close>
  \<open>.str.strip()\<close> turns an entry that is not a string into NaN, on which \<open>int\<close> raises
  ValueError. The mapped column is a float column, \<open>None\<close> becoming NaN.
\<close>

definition parse_int_entry :: "string option \<Rightarrow> error + real option" where
  "parse_int_entry x =
     (case x of
        None \<Rightarrow> Inl ValueError
      | Some s \<Rightarrow>
          if strip s = ''NA'' then Inr None
          else (case py_int (strip s) of Inl e \<Rightarrow> Inl e | Inr v \<Rightarrow> Inr (Some (real_of_int v))))"

definition parse_int_column :: "column \<Rightarrow> error + real option list" where
  "parse_int_column col =
     (case col of Numeric vs \<Rightarrow> Inr vs | Object xs \<Rightarrow> traverse parse_int_entry xs)"

text \<open>The observed (not missing) values of a column, and \<open>fillna(v)\<close> with a value or NaN.\<close>

definition observed :: "real option list \<Rightarrow> real list" where
  "observed vs = concat (map (\<lambda>v. case v of None \<Rightarrow> [] | Some x \<Rightarrow> [x]) vs)"

definition fillna :: "real option \<Rightarrow> real option list \<Rightarrow> real option list" where
  "fillna v vs = map (\<lambda>c. case c of None \<Rightarrow> v | Some x \<Rightarrow> Some x) vs"

text \<open>
  \<^verbatim>\<open>data.antiguedad[data.antiguedad<0] = data.antiguedad.max()\<close>
  (\<open>max\<close> skips NaN.)
\<close>

definition column_max :: "real option list \<Rightarrow> real option" where
  "column_max vs = (case py_max (observed vs) of Inl e \<Rightarrow> None | Inr m \<Rightarrow> Some m)"

definition replace_negative :: "real option list \<Rightarrow> real option list" where
  "replace_negative vs =
     map (\<lambda>c. case c of None \<Rightarrow> None | Some x \<Rightarrow> if x < 0 then column_max vs else Some x) vs"

text \<open>
  \<^verbatim>\<open>data['renta'] = pd.to_numeric(data['renta'], errors='coerce')\<close>
  The numeric parser of pandas is the parameter \<open>parse\<close>: \<open>None\<close> for a string it rejects.
\<close>

definition to_numeric_coerce :: "(string \<Rightarrow> real option) \<Rightarrow> raw \<Rightarrow> real option" where
  "to_numeric_coerce parse x = (case x of Num v \<Rightarrow> Some v | Str s \<Rightarrow> parse s | NaN \<Rightarrow> None)"

text \<open>
  \<^verbatim>\<open>for seg in data.segmento.unique():\<close>
  \<^verbatim>\<open>    med = data[data.segmento==seg]['renta'].dropna().median()\<close>
  \<^verbatim>\<open>    data.loc[(data.renta.isnull()) & (data.segmento==seg), 'renta'] = med\<close>
\<close>

definition segment_renta :: "string list \<Rightarrow> real option list \<Rightarrow> string \<Rightarrow> real list" where
  "segment_renta segs rs seg =
     observed (map fst (filter (\<lambda>(r, s). s = seg) (zip rs segs)))"

definition impute_segment :: "string list \<Rightarrow> string \<Rightarrow> real option list \<Rightarrow> real option list" where
  "impute_segment segs seg rs =
     (let med = median (segment_renta segs rs seg)
      in map (\<lambda>(r, s). if r = None \<and> s = seg then med else r) (zip rs segs))"

definition impute_renta :: "string list \<Rightarrow> real option list \<Rightarrow> real option list" where
  "impute_renta segs rs = fold (impute_segment segs) (unique segs) rs"

text \<open>
  The frame \<open>data\<close> after the imputation steps of \<open>get_features\<close>, in their order:
  antiguedad (parse, negative values, median), age (parse, median), segmento
  (\<open>fillna('02 - PARTICULARES')\<close>, first two characters), \<open>cod_prov.fillna(99)\<close>, renta.
  The steps on the other columns (isEmployed, tiprel_1mes, sexo, indfall) neither raise
  nor touch these columns.
\<close>

definition get_features_data ::
  "(string \<Rightarrow> real option) \<Rightarrow> (column, raw, string option) client_data
     \<Rightarrow> error + (real option list, real option, string) client_data" where
  "get_features_data parse data =
     (case parse_int_column (antiguedad data) of
        Inl e \<Rightarrow> Inl e
      | Inr ant \<Rightarrow>
          (case parse_int_column (age data) of
             Inl e \<Rightarrow> Inl e
           | Inr ag \<Rightarrow>
               (let ant1 = replace_negative ant;
                    ant2 = fillna (median (observed ant1)) ant1;
                    ag1 = fillna (median (observed ag)) ag;
                    segs = map (\<lambda>s. take 2 (case s of None \<Rightarrow> ''02 - PARTICULARES'' | Some x \<Rightarrow> x))
                             (segmento data);
                    cod = fillna (Some 99) (cod_prov data);
                    rs = map (to_numeric_coerce parse) (renta data)
                in Inr \<lparr>antiguedad = ant2, age = ag1, cod_prov = cod,
                         renta = impute_renta segs rs, segmento = segs\<rparr>)))"

subsection \<open>Ranking the predicted probabilities\<close>

text \<open>
  \<^verbatim>\<open>for pr in rec_products: probs.append(clfdict[pr].predict_proba(Xtest)[:, 1])\<close>
  \<^verbatim>\<open>probs = np.array(probs).T\<close>
  \<^verbatim>\<open>likeliestprods = np.argsort(probs, axis=1)[:, :-8:-1]\<close> (validation) and
  \<^verbatim>\<open>likeliestprods = np.argsort(probs, axis=1)[:, :-6:-1]\<close> (test), the stop being the
  second argument here;
  \<^verbatim>\<open>test_preds = [[rec_products[j] for j in row] for row in likeliestprods]\<close>
  The fitted classifiers are the parameter \<open>predict_proba\<close>: the probability column of
  the classifier of a product on a table.
\<close>

definition probs :: "(string \<Rightarrow> 'x \<Rightarrow> 'a list) \<Rightarrow> 'x \<Rightarrow> 'a list list" where
  "probs predict_proba X = np_transpose (map (\<lambda>pr. predict_proba pr X) rec_products)"

definition likeliestprods :: "('a::linorder list \<Rightarrow> nat list) \<Rightarrow> int \<Rightarrow> 'a list list \<Rightarrow> nat list list" where
  "likeliestprods srt stop ps = map (\<lambda>row. slice_down_to (srt row) stop) ps"

definition prlist :: "('a::linorder list \<Rightarrow> nat list) \<Rightarrow> 'a list list \<Rightarrow> string list list" where
  "prlist srt ps = map (\<lambda>row. map (\<lambda>j. rec_products ! j) row) (likeliestprods srt (- 8) ps)"

definition test_preds :: "('a::linorder list \<Rightarrow> nat list) \<Rightarrow> 'a list list \<Rightarrow> string list list" where
  "test_preds srt ps = map (\<lambda>row. map (\<lambda>j. rec_products ! j) row) (likeliestprods srt (- 6) ps)"

text \<open>
  \<^verbatim>\<open>out = pd.DataFrame()\<close>
  \<^verbatim>\<open>out['id'] = ids\<close>
  \<^verbatim>\<open>for i in range(5): out['p' + str(i)] = np.array(test_preds)[:, i]\<close>
  \<^verbatim>\<open>out.to_csv('output.csv')\<close>
  Assigning a column whose length is not that of the frame raises ValueError. A line of
  the file is the id with the columns \<open>p0\<close> to \<open>p4\<close>.
\<close>

definition out_column :: "int list \<Rightarrow> string list list \<Rightarrow> nat \<Rightarrow> error + string list" where
  "out_column ids preds i =
     (case np_column preds i of
        Inl e \<Rightarrow> Inl e
      | Inr c \<Rightarrow> if length c = length ids then Inr c else Inl ValueError)"

definition out :: "int list \<Rightarrow> string list list \<Rightarrow> error + (int \<times> string list) list" where
  "out ids preds =
     (case traverse (out_column ids preds) [0..<5] of
        Inl e \<Rightarrow> Inl e
      | Inr cols \<Rightarrow> Inr (map (\<lambda>r. (ids ! r, map (\<lambda>c. c ! r) cols)) [0..<length ids]))"

section \<open>Properties of the primitives\<close>

lemma fold_min_le: "fold min r (x::'a::linorder) \<le> x \<and> (\<forall>v\<in>set r. fold min r x \<le> v)"
proof (induction r arbitrary: x)
  case Nil
  show ?case by simp
next
  case (Cons a r)
  have "fold min r (min a x) \<le> min a x" using Cons.IH by blast
  then show ?case using Cons.IH [of "min a x"] by (auto simp: min_le_iff_disj)
qed

lemma fold_min_in: "fold min r (x::'a::linorder) \<in> insert x (set r)"
  by (induction r arbitrary: x) (auto simp: min_def)

lemma fold_max_ge: "x \<le> fold max r (x::'a::linorder) \<and> (\<forall>v\<in>set r. v \<le> fold max r x)"
proof (induction r arbitrary: x)
  case Nil
  show ?case by simp
next
  case (Cons a r)
  have "max a x \<le> fold max r (max a x)" using Cons.IH by blast
  then show ?case using Cons.IH [of "max a x"] by (auto simp: le_max_iff_disj)
qed

lemma fold_max_in: "fold max r (x::'a::linorder) \<in> insert x (set r)"
  by (induction r arbitrary: x) (auto simp: max_def)

lemma py_min_Inr:
  assumes "py_min xs = Inr m"
  shows "m \<in> set xs \<and> (\<forall>v\<in>set xs. m \<le> v)"
proof (cases xs)
  case Nil
  then show ?thesis using assms by (simp add: py_min_def)
next
  case (Cons x r)
  then have m: "m = fold min r x" using assms by (simp add: py_min_def)
  show ?thesis using fold_min_le [of r x] fold_min_in [of r x] Cons m by auto
qed

lemma py_max_Inr:
  assumes "py_max xs = Inr m"
  shows "m \<in> set xs \<and> (\<forall>v\<in>set xs. v \<le> m)"
proof (cases xs)
  case Nil
  then show ?thesis using assms by (simp add: py_max_def)
next
  case (Cons x r)
  then have m: "m = fold max r x" using assms by (simp add: py_max_def)
  show ?thesis using fold_max_ge [of x r] fold_max_in [of r x] Cons m by auto
qed

lemma py_min_nonempty: "xs \<noteq> [] \<Longrightarrow> \<exists>m. py_min xs = Inr m"
  by (cases xs) (auto simp: py_min_def)

lemma py_max_nonempty: "xs \<noteq> [] \<Longrightarrow> \<exists>m. py_max xs = Inr m"
  by (cases xs) (auto simp: py_max_def)

lemma traverse_all_Inr:
  "(\<And>x. x \<in> set xs \<Longrightarrow> f x = Inr (g x)) \<Longrightarrow> traverse f xs = Inr (map g xs)"
  by (induction xs) auto

lemma traverse_first_Inl:
  "xs \<noteq> [] \<Longrightarrow> (\<And>x. x \<in> set xs \<Longrightarrow> f x = Inl e) \<Longrightarrow> traverse f xs = Inl e"
  by (cases xs) auto

section \<open>Rating normalization: range and division by zero\<close>

lemma normalize_pos:
  "mn < mx \<Longrightarrow> normalize_rating mn mx x = Inr ((x - mn) / (mx - mn))"
  by (simp add: normalize_rating_def py_truediv_def)

text \<open>
  C7. With \<open>min_rating < max_rating\<close>, a rating between the two is normalized to a value
  in \<open>[0, 1]\<close>, the minimum to exactly 0 and the maximum to exactly 1; and for a rating
  column whose minimum is below its maximum, every entry of \<open>y\<close> lies in \<open>[0, 1]\<close> and
  both 0 and 1 occur in it.
\<close>

theorem normalized_rating_in_unit_interval:
  "(mn \<le> r \<and> r \<le> mx \<and> mn < mx \<longrightarrow>
      (\<exists>v. normalize_rating mn mx r = Inr v \<and> 0 \<le> v \<and> v \<le> 1)
      \<and> normalize_rating mn mx mn = Inr 0 \<and> normalize_rating mn mx mx = Inr 1)
   \<and> (min_rating rating = Inr mn \<and> max_rating rating = Inr mx \<and> mn < mx
        \<and> mset sampled = mset rating \<longrightarrow>
      (\<exists>ys. y_targets rating sampled = Inr ys \<and> length ys = length rating
           \<and> (\<forall>v\<in>set ys. 0 \<le> v \<and> v \<le> 1) \<and> 0 \<in> set ys \<and> 1 \<in> set ys))"
proof (intro conjI impI)
  assume a: "mn \<le> r \<and> r \<le> mx \<and> mn < mx"
  then have "0 \<le> (r - mn) / (mx - mn)" "(r - mn) / (mx - mn) \<le> 1"
    by (simp_all add: divide_le_eq)
  then show "\<exists>v. normalize_rating mn mx r = Inr v \<and> 0 \<le> v \<and> v \<le> 1"
    using a by (simp add: normalize_pos)
  show "normalize_rating mn mx mn = Inr 0" using a by (simp add: normalize_pos)
  show "normalize_rating mn mx mx = Inr 1" using a by (simp add: normalize_pos)
next
  assume a: "min_rating rating = Inr mn \<and> max_rating rating = Inr mx \<and> mn < mx
    \<and> mset sampled = mset rating"
  let ?g = "\<lambda>x. (x - mn) / (mx - mn)"
  have lt: "mn < mx" using a by simp
  have mn: "mn \<in> set rating" "\<forall>v\<in>set rating. mn \<le> v"
    using a py_min_Inr [of rating mn] by (simp_all add: min_rating_def)
  have mx: "mx \<in> set rating" "\<forall>v\<in>set rating. v \<le> mx"
    using a py_max_Inr [of rating mx] by (simp_all add: max_rating_def)
  have s: "set sampled = set rating" using a by (metis set_mset_mset)
  have l: "length sampled = length rating" using a by (metis size_mset)
  have yv: "y_targets rating sampled = Inr (map ?g sampled)"
    using a traverse_all_Inr [of sampled "normalize_rating mn mx" ?g]
    by (simp add: y_targets_def normalize_pos)
  have rng: "\<forall>v\<in>set (map ?g sampled). 0 \<le> v \<and> v \<le> 1"
    using lt mn(2) mx(2) s by (auto simp: divide_le_eq)
  have "?g mn = 0" "?g mx = 1" using lt by simp_all
  then have "0 \<in> ?g ` set rating" "1 \<in> ?g ` set rating"
    using mn(1) mx(1) by (force intro: rev_image_eqI)+
  then have ends: "0 \<in> set (map ?g sampled)" "1 \<in> set (map ?g sampled)"
    using s by simp_all
  show "\<exists>ys. y_targets rating sampled = Inr ys \<and> length ys = length rating
           \<and> (\<forall>v\<in>set ys. 0 \<le> v \<and> v \<le> 1) \<and> 0 \<in> set ys \<and> 1 \<in> set ys"
    using yv rng ends l by simp
qed

theorem normalized_rating_in_unit_interval_witness:
  "normalize_rating (1/2) 5 3 = Inr (5/9) \<and> normalize_rating (1/2) 5 (1/2) = Inr 0
   \<and> normalize_rating (1/2) 5 5 = Inr 1
   \<and> (\<exists>ys. y_targets [4, 1/2, 5, 3] [3, 5, 4, 1/2] = Inr ys \<and> length ys = 4 \<and> 0 \<in> set ys \<and> 1 \<in> set ys)"
proof -
  have h1: "(1/2::real) \<le> 3 \<and> (3::real) \<le> 5 \<and> (1/2::real) < 5" by simp
  have h2: "min_rating [4, 1/2, 5, 3] = Inr (1/2) \<and> max_rating [4, 1/2, 5, 3] = Inr 5
    \<and> (1/2::real) < 5 \<and> mset [3, 5, 4, 1/2::real] = mset [4, 1/2, 5, 3]"
    by (simp add: min_rating_def max_rating_def py_min_def py_max_def)
  have n: "normalize_rating (1/2) 5 3 = Inr (5/9)"
    by (simp add: normalize_rating_def py_truediv_def)
  show ?thesis
    using normalized_rating_in_unit_interval
      [of "1/2" 3 5 "[4, 1/2, 5, 3]" "[3, 5, 4, 1/2]"] h1 h2 n
    by auto
qed

section \<open>Rating normalization: the unguarded division\<close>

lemma distinct_ratings_min_lt_max:
  fixes mn mx :: real
  assumes "a \<in> set rating" "b \<in> set rating" "a \<noteq> b"
    and "py_min rating = Inr mn" "py_max rating = Inr mx"
  shows "mn < mx"
proof -
  have "mn \<le> a" "mn \<le> b" "a \<le> mx" "b \<le> mx"
    using assms py_min_Inr [of rating mn] py_max_Inr [of rating mx] by simp_all
  then show ?thesis using \<open>a \<noteq> b\<close> by linarith
qed

lemma equal_ratings_min_eq_max:
  assumes "\<forall>a\<in>set rating. \<forall>b\<in>set rating. a = b"
    and "py_min rating = Inr mn" "py_max rating = Inr mx"
  shows "mn = mx"
  using assms py_min_Inr [of rating mn] py_max_Inr [of rating mx] by simp

text \<open>
  C10. The division of the normalization has no guard. On a rating column with two distinct
  values the divisor \<open>max_rating - min_rating\<close> is not zero, no normalization raises
  ZeroDivisionError and \<open>y\<close> is computed. On a non-empty column without two distinct values
  the divisor is zero and \<open>y\<close> raises ZeroDivisionError (on an empty one \<open>min\<close> already
  raises ValueError): two distinct ratings are exactly the precondition for \<open>y\<close> to be
  defined.
\<close>

theorem normalization_defined_iff_two_distinct_ratings:
  assumes "mset sampled = mset rating"
  shows "((\<exists>a\<in>set rating. \<exists>b\<in>set rating. a \<noteq> b) \<longrightarrow>
            (\<exists>mn mx. min_rating rating = Inr mn \<and> max_rating rating = Inr mx \<and> mx - mn \<noteq> 0
               \<and> (\<forall>x. normalize_rating mn mx x \<noteq> Inl ZeroDivisionError))
            \<and> (\<exists>ys. y_targets rating sampled = Inr ys))
       \<and> (rating \<noteq> [] \<and> \<not> (\<exists>a\<in>set rating. \<exists>b\<in>set rating. a \<noteq> b) \<longrightarrow>
            (\<exists>mn. min_rating rating = Inr mn \<and> max_rating rating = Inr mn)
            \<and> y_targets rating sampled = Inl ZeroDivisionError)
       \<and> (rating = [] \<longrightarrow> y_targets rating sampled = Inl ValueError)"
proof (intro conjI impI)
  assume "\<exists>a\<in>set rating. \<exists>b\<in>set rating. a \<noteq> b"
  then obtain a b where ab: "a \<in> set rating" "b \<in> set rating" "a \<noteq> b" by blast
  then have "rating \<noteq> []" by auto
  then obtain mn mx where m: "py_min rating = Inr mn" "py_max rating = Inr mx"
    using py_min_nonempty py_max_nonempty by blast
  have lt: "mn < mx" using distinct_ratings_min_lt_max [OF ab m] .
  have nz: "\<forall>x. normalize_rating mn mx x \<noteq> Inl ZeroDivisionError"
    using lt by (simp add: normalize_pos)
  show "\<exists>mn mx. min_rating rating = Inr mn \<and> max_rating rating = Inr mx \<and> mx - mn \<noteq> 0
      \<and> (\<forall>x. normalize_rating mn mx x \<noteq> Inl ZeroDivisionError)"
    using m lt nz by (auto simp: min_rating_def max_rating_def)
  have "y_targets rating sampled = Inr (map (\<lambda>x. (x - mn) / (mx - mn)) sampled)"
    using m lt traverse_all_Inr [of sampled "normalize_rating mn mx" "\<lambda>x. (x - mn) / (mx - mn)"]
    by (simp add: y_targets_def min_rating_def max_rating_def normalize_pos)
  then show "\<exists>ys. y_targets rating sampled = Inr ys" by blast
next
  assume a: "rating \<noteq> [] \<and> \<not> (\<exists>a\<in>set rating. \<exists>b\<in>set rating. a \<noteq> b)"
  then obtain mn mx where m: "py_min rating = Inr mn" "py_max rating = Inr mx"
    using py_min_nonempty py_max_nonempty by blast
  have eq: "mn = mx" using equal_ratings_min_eq_max [of rating mn mx] a m by blast
  show "\<exists>mn. min_rating rating = Inr mn \<and> max_rating rating = Inr mn"
    using m eq by (simp add: min_rating_def max_rating_def)
  have ne: "sampled \<noteq> []" using a assms by (metis mset_zero_iff)
  have "traverse (normalize_rating mn mn) sampled = Inl ZeroDivisionError"
    using ne by (intro traverse_first_Inl) (simp_all add: normalize_rating_def py_truediv_def)
  then show "y_targets rating sampled = Inl ZeroDivisionError"
    using m eq by (simp add: y_targets_def min_rating_def max_rating_def)
next
  assume "rating = []"
  then show "y_targets rating sampled = Inl ValueError"
    by (simp add: y_targets_def min_rating_def py_min_def)
qed

theorem normalization_defined_iff_two_distinct_ratings_witness:
  "(\<exists>ys. y_targets [4, 1/2, 5, 3] [3, 5, 4, 1/2] = Inr ys)
   \<and> y_targets [3, 3, 3] [3, 3, 3] = Inl ZeroDivisionError
   \<and> y_targets [] [] = Inl ValueError"
proof -
  have h1: "mset [3, 5, 4, 1/2::real] = mset [4, 1/2, 5, 3]" by simp
  have d1: "\<exists>a\<in>set [4, 1/2, 5, 3::real]. \<exists>b\<in>set [4, 1/2, 5, 3]. a \<noteq> b"
    by (intro bexI [of _ 4] bexI [of _ 3]) simp_all
  have c1: "\<exists>ys. y_targets [4, 1/2, 5, 3] [3, 5, 4, 1/2] = Inr ys"
    using normalization_defined_iff_two_distinct_ratings [OF h1] d1 by blast
  have d2: "[3, 3, 3::real] \<noteq> [] \<and> \<not> (\<exists>a\<in>set [3, 3, 3::real]. \<exists>b\<in>set [3, 3, 3]. a \<noteq> b)"
    by simp
  have c2: "y_targets [3, 3, 3] [3, 3, 3] = Inl ZeroDivisionError"
    using normalization_defined_iff_two_distinct_ratings [of "[3, 3, 3]" "[3, 3, 3]"] d2
    by blast
  have c3: "y_targets [] [] = Inl ValueError"
    using normalization_defined_iff_two_distinct_ratings [of "[]" "[]"] by blast
  show ?thesis using c1 c2 c3 by blast
qed

section \<open>Dense encoding of ids\<close>

lemma set_unique_from: "set (unique_from seen xs) = set xs - set seen"
  by (induction xs arbitrary: seen) auto

lemma distinct_unique_from: "distinct (unique_from seen xs)"
  by (induction xs arbitrary: seen) (auto simp: set_unique_from)

lemma unique_from_first_occurrence:
  "unique_from seen xs =
     map (nth xs) (filter (\<lambda>i. xs ! i \<notin> set seen \<union> set (take i xs)) [0..<length xs])"
proof (induction xs arbitrary: seen)
  case Nil
  show ?case by simp
next
  case (Cons x r)
  have upt: "[0..<length (x # r)] = 0 # map Suc [0..<length r]"
    by (simp add: upt_conv_Cons map_Suc_upt del: upt_Suc)
  have tl: "map (nth (x # r))
        (filter (\<lambda>i. (x # r) ! i \<notin> set seen \<union> set (take i (x # r))) (map Suc [0..<length r]))
      = map (nth r) (filter (\<lambda>i. r ! i \<notin> set (x # seen) \<union> set (take i r)) [0..<length r])"
    apply (simp add: filter_map comp_def)
    apply (rule arg_cong [where f = "map ((!) r)"])
    apply (rule filter_cong)
     apply auto
    done
  show ?case
  proof (cases "x \<in> set seen")
    case True
    then have "set (x # seen) = set seen" by auto
    then show ?thesis using True Cons.IH [of seen] upt tl by simp
  next
    case False
    then show ?thesis using Cons.IH [of "x # seen"] upt tl by simp
  qed
qed

lemma fold_update_map_of:
  "fold (\<lambda>(k, v) m. m(k \<mapsto> v)) kvs m = m ++ map_of (rev kvs)"
  by (induction kvs arbitrary: m) (auto simp: map_add_upd_left fun_eq_iff map_add_def split: option.splits)

lemma dict_of_distinct:
  assumes "distinct (map fst kvs)"
  shows "dict_of kvs = map_of kvs"
proof -
  have d: "distinct (map fst (rev kvs))" using assms by (simp add: rev_map [symmetric])
  have "map_of (rev kvs) k = map_of kvs k" for k
  proof (cases "map_of kvs k")
    case None
    then have "k \<notin> fst ` set (rev kvs)" by (simp add: map_of_eq_None_iff)
    then have "map_of (rev kvs) k = None" by (simp add: map_of_eq_None_iff)
    then show ?thesis using None by simp
  next
    case (Some v)
    then have "(k, v) \<in> set (rev kvs)" by (simp add: map_of_SomeD)
    then show ?thesis using d Some by simp
  qed
  then show ?thesis by (simp add: dict_of_def fold_update_map_of fun_eq_iff)
qed

lemma encoder_map_of:
  assumes "distinct ids"
  shows "dict_of (map (\<lambda>(i, x). (x, i)) (enumerate_list ids)) = map_of (zip ids [0..<length ids])"
proof -
  have z: "map (\<lambda>(i, x). (x, i)) (zip [0..<length ids] ids) = zip ids [0..<length ids]"
    by (simp add: zip_commute [of ids] )
  have "distinct (map fst (zip ids [0..<length ids]))" using assms by simp
  then show ?thesis
    using z dict_of_distinct [of "zip ids [0..<length ids]"] by (simp add: enumerate_list_def)
qed

lemma decoder_map_of:
  "dict_of (map (\<lambda>(i, x). (i, x)) (enumerate_list ids)) = map_of (zip [0..<length ids] ids)"
proof -
  have "distinct (map fst (zip [0..<length ids] ids))" by simp
  then show ?thesis
    using dict_of_distinct [of "zip [0..<length ids] ids"] by (simp add: enumerate_list_def)
qed

lemma encode_decode_unique:
  fixes raw :: "'a list"
  defines "ids \<equiv> unique raw"
  defines "enc \<equiv> dict_of (map (\<lambda>(i, x). (x, i)) (enumerate_list ids))"
  defines "dec \<equiv> dict_of (map (\<lambda>(i, x). (i, x)) (enumerate_list ids))"
  shows "distinct ids \<and> set ids = set raw \<and> length ids = card (set raw)
    \<and> ids = map (nth raw) (filter (\<lambda>i. raw ! i \<notin> set (take i raw)) [0..<length raw])
    \<and> dom enc = set raw \<and> ran enc = {0..<length ids} \<and> inj_on enc (set raw)
    \<and> dom dec = {0..<length ids} \<and> ran dec = set raw
    \<and> (\<forall>x\<in>set raw. \<exists>i<length ids. enc x = Some i \<and> dec i = Some x)
    \<and> (\<forall>i<length ids. \<exists>x\<in>set raw. x = ids ! i \<and> dec i = Some x \<and> enc x = Some i)"
proof -
  let ?n = "length ids"
  have d: "distinct ids" by (simp add: ids_def unique_def distinct_unique_from)
  have s: "set ids = set raw" by (simp add: ids_def unique_def set_unique_from)
  have c: "?n = card (set raw)" using d s by (metis distinct_card)
  have f: "ids = map (nth raw) (filter (\<lambda>i. raw ! i \<notin> set (take i raw)) [0..<length raw])"
    using unique_from_first_occurrence [of "[]" raw] by (simp add: ids_def unique_def)
  have e: "enc = map_of (zip ids [0..<?n])" using d by (simp add: enc_def encoder_map_of)
  have g: "dec = map_of (zip [0..<?n] ids)" unfolding dec_def by (rule decoder_map_of)
  have en: "enc (ids ! i) = Some i" if "i < ?n" for i
    using that d e map_of_zip_nth [of ids "[0..<?n]" i] by simp
  have dn: "dec i = Some (ids ! i)" if "i < ?n" for i
    using that g map_of_zip_nth [of "[0..<?n]" ids i] by simp
  have de: "dom enc = set raw" using e s by simp
  have re: "ran enc = {0..<?n}" using e d by (simp add: ran_map_of_zip)
  have dd: "dom dec = {0..<?n}" using g by simp
  have rd: "ran dec = set raw" using g s by (simp add: ran_map_of_zip)
  have rt: "\<forall>x\<in>set raw. \<exists>i<?n. enc x = Some i \<and> dec i = Some x"
  proof
    fix x assume "x \<in> set raw"
    then obtain i where "i < ?n" "ids ! i = x" using s by (metis in_set_conv_nth)
    then show "\<exists>i<?n. enc x = Some i \<and> dec i = Some x" using en dn by blast
  qed
  have tr: "\<forall>i<?n. \<exists>x\<in>set raw. x = ids ! i \<and> dec i = Some x \<and> enc x = Some i"
    using en dn s by (metis nth_mem)
  have inj: "inj_on enc (set raw)"
  proof (rule inj_onI)
    fix a b assume ab: "a \<in> set raw" "b \<in> set raw" "enc a = enc b"
    obtain i where i: "i < ?n" "enc a = Some i" "dec i = Some a" using rt ab(1) by blast
    obtain j where j: "j < ?n" "enc b = Some j" "dec j = Some b" using rt ab(2) by blast
    show "a = b" using i j ab(3) by simp
  qed
  show ?thesis using d s c f de re inj dd rd rt tr by blast
qed

text \<open>
  C8. For the user ids and for the movie ids alike: the distinct ids, in the order of
  their first occurrence, are numbered \<open>0, ..., n - 1\<close> with \<open>n\<close> the number of distinct
  ids; the encoding dict is defined exactly on the raw ids, is injective and has range
  \<open>{0, ..., n - 1}\<close>; the decoding dict is defined exactly on \<open>{0, ..., n - 1}\<close>; decoding
  the code of a raw id gives the id back and encoding the id decoded from an index below
  \<open>n\<close> gives the index back.
\<close>

theorem id_encoding_is_bijection:
  assumes "(enc = user2user_encoded raw \<and> dec = userencoded2user raw \<and> ids = user_ids raw)
     \<or> (enc = movie2movie_encoded raw \<and> dec = movie_encoded2movie raw \<and> ids = movie_ids raw)"
  shows "distinct ids \<and> set ids = set raw \<and> length ids = card (set raw)
    \<and> ids = map (nth raw) (filter (\<lambda>i. raw ! i \<notin> set (take i raw)) [0..<length raw])
    \<and> dom enc = set raw \<and> ran enc = {0..<length ids} \<and> inj_on enc (set raw)
    \<and> dom dec = {0..<length ids} \<and> ran dec = set raw
    \<and> (\<forall>x\<in>set raw. \<exists>i<length ids. enc x = Some i \<and> dec i = Some x)
    \<and> (\<forall>i<length ids. \<exists>x\<in>set raw. x = ids ! i \<and> dec i = Some x \<and> enc x = Some i)"
  using assms
proof (elim disjE conjE)
  assume a: "enc = user2user_encoded raw" "dec = userencoded2user raw" "ids = user_ids raw"
  show ?thesis
    unfolding a user2user_encoded_def userencoded2user_def user_ids_def
    by (rule encode_decode_unique)
next
  assume a: "enc = movie2movie_encoded raw" "dec = movie_encoded2movie raw" "ids = movie_ids raw"
  show ?thesis
    unfolding a movie2movie_encoded_def movie_encoded2movie_def movie_ids_def
    by (rule encode_decode_unique)
qed

theorem id_encoding_is_bijection_witness:
  "user_ids [7, 3, 7, 9, 3] = [7, 3, 9]
   \<and> dom (user2user_encoded [7, 3, 7, 9, 3]) = set [7, 3, 7, 9, 3]
   \<and> ran (user2user_encoded [7, 3, 7, 9, 3]) = {0..<3}
   \<and> dom (userencoded2user [7, 3, 7, 9, 3]) = {0..<3}
   \<and> user2user_encoded [7, 3, 7, 9, 3] 9 = Some 2
   \<and> userencoded2user [7, 3, 7, 9, 3] 2 = Some 9"
proof -
  let ?raw = "[7, 3, 7, 9, 3] :: int list"
  have u: "user_ids ?raw = [7, 3, 9]"
    by (simp add: user_ids_def unique_def)
  have l: "length (user_ids ?raw) = 3" by (simp only: u) simp
  have e: "user2user_encoded ?raw 9 = Some 2"
    by (simp add: user2user_encoded_def u enumerate_list_def dict_of_def upt_rec)
  have g: "userencoded2user ?raw 2 = Some 9"
    by (simp add: userencoded2user_def u enumerate_list_def dict_of_def upt_rec)
  have h: "(user2user_encoded ?raw = user2user_encoded ?raw
        \<and> userencoded2user ?raw = userencoded2user ?raw \<and> user_ids ?raw = user_ids ?raw)
     \<or> (user2user_encoded ?raw = movie2movie_encoded ?raw
        \<and> userencoded2user ?raw = movie_encoded2movie ?raw \<and> user_ids ?raw = movie_ids ?raw)"
    by simp
  have t: "dom (user2user_encoded ?raw) = set ?raw
      \<and> ran (user2user_encoded ?raw) = {0..<length (user_ids ?raw)}
      \<and> dom (userencoded2user ?raw) = {0..<length (user_ids ?raw)}"
    using id_encoding_is_bijection [OF h] by blast
  have t': "dom (user2user_encoded ?raw) = set ?raw
      \<and> ran (user2user_encoded ?raw) = {0..<3}
      \<and> dom (userencoded2user ?raw) = {0..<3}"
    using t by (simp only: l)
  show ?thesis using t' u e g by blast
qed

section \<open>Top-K selection\<close>

lemma map_nth_upt_drop: "map (nth xs) [m..<length xs] = drop m xs"
  by (rule nth_equalityI) simp_all

lemma slice_down_to_take:
  "slice_down_to xs (- int (Suc k)) = take k (rev xs)"
proof -
  let ?n = "length xs"
  have lo: "nat (max (- int (Suc k) + int ?n) (- 1) + 1) = ?n - k" by auto
  have "slice_down_to xs (- int (Suc k)) = map (nth xs) (rev [?n - k..<?n])"
    using lo by (simp add: slice_down_to_def Let_def)
  also have "\<dots> = rev (drop (?n - k) xs)"
    by (simp add: rev_map [symmetric] map_nth_upt_drop)
  also have "\<dots> = take k (rev xs)" by (simp add: take_rev)
  finally show ?thesis .
qed

lemma slice_from_drop:
  assumes "0 < k"
  shows "slice_from xs (- int k) = drop (length xs - k) xs"
proof -
  have "nat (max (- int k + int (length xs)) 0) = length xs - k" by auto
  then show ?thesis using assms by (simp add: slice_from_def Let_def)
qed

lemma argsort_is_argsort: "is_argsort argsort"
  by (simp add: is_argsort_def argsort_def)

lemma top_k_of_argsort:
  fixes row :: "'a::linorder list"
  assumes p: "mset p = mset [0..<length row]" and s: "sorted (map (nth row) p)"
  shows "is_top_k k row (take k (rev p))"
proof -
  let ?sel = "take k (rev p)" and ?rest = "drop k (rev p)"
  have len: "length p = length row" using p by (metis size_mset length_upt diff_zero)
  have dist: "distinct p" using p by (metis distinct_upt mset_eq_imp_distinct_iff)
  have setp: "set p = {0..<length row}" using p by (metis set_mset_mset set_upt)
  have desc: "sorted_wrt (\<lambda>a b. row ! b \<le> row ! a) (rev p)"
    using s by (simp add: sorted_wrt_rev sorted_wrt_map)
  have split: "rev p = ?sel @ ?rest" by simp
  have desc_sel: "sorted_wrt (\<lambda>a b. row ! b \<le> row ! a) ?sel"
    using desc by (rule sorted_wrt_take)
  have cross: "\<forall>a\<in>set ?sel. \<forall>b\<in>set ?rest. row ! b \<le> row ! a"
    using desc split by (metis sorted_wrt_append)
  have l: "length ?sel = min k (length row)" using len by simp
  have d: "distinct ?sel" using dist by simp
  have b: "\<forall>i\<in>set ?sel. i < length row"
    using setp by (metis atLeastLessThan_iff in_set_takeD set_rev)
  have adj: "\<forall>j. Suc j < length ?sel \<longrightarrow> row ! (?sel ! Suc j) \<le> row ! (?sel ! j)"
    using desc_sel by (simp add: sorted_wrt_iff_nth_less)
  have un: "\<forall>u<length row. u \<notin> set ?sel \<longrightarrow> (\<forall>i\<in>set ?sel. row ! u \<le> row ! i)"
  proof (intro allI impI ballI)
    fix u i assume u: "u < length row" "u \<notin> set ?sel" and i: "i \<in> set ?sel"
    have "u \<in> set (rev p)" using u(1) setp by simp
    then have "u \<in> set ?sel \<union> set ?rest" by (metis split set_append)
    then have "u \<in> set ?rest" using u(2) by simp
    then show "row ! u \<le> row ! i" using cross i by blast
  qed
  show ?thesis unfolding is_top_k_def using l d b adj un by blast
qed

lemma likeliestprods_row:
  assumes "is_argsort srt" "i < length ps"
  shows "is_top_k k (ps ! i) (likeliestprods srt (- int (Suc k)) ps ! i)"
proof -
  have "mset (srt (ps ! i)) = mset [0..<length (ps ! i)]"
    "sorted (map (nth (ps ! i)) (srt (ps ! i)))"
    using assms(1) by (simp_all add: is_argsort_def)
  then have "is_top_k k (ps ! i) (take k (rev (srt (ps ! i))))" by (rule top_k_of_argsort)
  then show ?thesis
    using assms(2) unfolding likeliestprods_def by (simp only: nth_map slice_down_to_take)
qed

text \<open>
  C1. For any \<open>argsort\<close> that meets its contract and any matrix of predicted
  probabilities, the selection step returns, row by row, the top 7 (validation) and the
  top 5 (test) column indices, and for the movie ratings the top 10 indices: as many
  distinct indices as asked for (all of them when there are fewer entries), each
  selected entry no smaller than the next selected one, and no unselected index with an
  entry greater than a selected one.
\<close>

theorem top_k_selection_sorted_descending:
  assumes "is_argsort srt"
  shows "length (likeliestprods srt (- 8) ps) = length ps
     \<and> (\<forall>i<length ps. is_top_k 7 (ps ! i) (likeliestprods srt (- 8) ps ! i))
     \<and> length (likeliestprods srt (- 6) ps) = length ps
     \<and> (\<forall>i<length ps. is_top_k 5 (ps ! i) (likeliestprods srt (- 6) ps ! i))
     \<and> is_top_k 10 ratings (top_ratings_indices srt ratings)"
proof -
  have v: "\<forall>i<length ps. is_top_k 7 (ps ! i) (likeliestprods srt (- 8) ps ! i)"
    using likeliestprods_row [OF assms, of _ ps 7] by simp
  have t: "\<forall>i<length ps. is_top_k 5 (ps ! i) (likeliestprods srt (- 6) ps ! i)"
    using likeliestprods_row [OF assms, of _ ps 5] by simp
  have "mset (srt ratings) = mset [0..<length ratings]"
    "sorted (map (nth ratings) (srt ratings))"
    using assms by (simp_all add: is_argsort_def)
  then have "is_top_k 10 ratings (take 10 (rev (srt ratings)))" by (rule top_k_of_argsort)
  moreover have "top_ratings_indices srt ratings = take 10 (rev (srt ratings))"
    using slice_from_drop [of 10 "srt ratings"] by (simp add: top_ratings_indices_def take_rev)
  ultimately have m: "is_top_k 10 ratings (top_ratings_indices srt ratings)" by simp
  show ?thesis using v t m by (simp add: likeliestprods_def)
qed

theorem top_k_selection_sorted_descending_witness:
  "is_argsort (argsort :: real list \<Rightarrow> nat list)
   \<and> likeliestprods argsort (- 6)
        [[0.30, 0.05, 0.20, 0.20, 0.01, 0.90, 0.40, 0.02, 0.60, 0.03, 0.70, 0.04 :: real]]
      = [[5, 10, 8, 6, 0]]
   \<and> is_top_k 5 [0.30, 0.05, 0.20, 0.20, 0.01, 0.90, 0.40, 0.02, 0.60, 0.03, 0.70, 0.04 :: real]
        [5, 10, 8, 6, 0]
   \<and> is_top_k 7 [0.30, 0.05, 0.20, 0.20, 0.01, 0.90, 0.40, 0.02, 0.60, 0.03, 0.70, 0.04 :: real]
        [5, 10, 8, 6, 0, 3, 2]
   \<and> is_top_k 10 [0.5, 0.9, 0.1 :: real] [1, 0, 2]"
proof -
  let ?row = "[0.30, 0.05, 0.20, 0.20, 0.01, 0.90, 0.40, 0.02, 0.60, 0.03, 0.70, 0.04 :: real]"
  let ?ratings = "[0.5, 0.9, 0.1 :: real]"
  have a: "is_argsort (argsort :: real list \<Rightarrow> nat list)" by (rule argsort_is_argsort)
  have w5: "likeliestprods argsort (- 6) [?row] = [[5, 10, 8, 6, 0]]"
    by (simp add: likeliestprods_def argsort_def slice_down_to_def upt_rec)
  have w7: "likeliestprods argsort (- 8) [?row] = [[5, 10, 8, 6, 0, 3, 2]]"
    by (simp add: likeliestprods_def argsort_def slice_down_to_def upt_rec)
  have w10: "top_ratings_indices argsort ?ratings = [1, 0, 2]"
    by (simp add: top_ratings_indices_def argsort_def slice_from_def upt_rec)
  note t = top_k_selection_sorted_descending [OF a, of "[?row]" ?ratings]
  have t7: "is_top_k 7 ([?row] ! 0) (likeliestprods argsort (- 8) [?row] ! 0)"
    using t by simp
  have t5: "is_top_k 5 ([?row] ! 0) (likeliestprods argsort (- 6) [?row] ! 0)"
    using t by simp
  have t10: "is_top_k 10 ?ratings (top_ratings_indices argsort ?ratings)"
    using t by blast
  have r7: "is_top_k 7 ?row [5, 10, 8, 6, 0, 3, 2]" using t7 by (simp only: w7 nth_Cons_0)
  have r5: "is_top_k 5 ?row [5, 10, 8, 6, 0]" using t5 by (simp only: w5 nth_Cons_0)
  have r10: "is_top_k 10 ?ratings [1, 0, 2]" using t10 by (simp only: w10)
  show ?thesis using a w5 r5 r7 r10 by blast
qed

section \<open>The recommendation file\<close>

lemma length_rec_products: "length rec_products = 12"
  by (simp add: rec_products_def)

lemma distinct_rec_products: "distinct rec_products"
  by (simp add: rec_products_def)

lemma np_transpose_map:
  assumes "xs \<noteq> []"
  shows "np_transpose (map f xs) = map (\<lambda>i. map (\<lambda>x. f x ! i) xs) [0..<length (f (hd xs))]"
  using assms by (cases xs) (simp_all add: np_transpose_def comp_def)

lemma probs_rows:
  assumes "\<forall>pr\<in>set rec_products. length (predict_proba pr X) = n"
  shows "length (probs predict_proba X) = n"
    and "r < n \<Longrightarrow> probs predict_proba X ! r = map (\<lambda>pr. predict_proba pr X ! r) rec_products"
proof -
  have ne: "rec_products \<noteq> []" using length_rec_products by auto
  then have "hd rec_products \<in> set rec_products" by simp
  then have h: "length (predict_proba (hd rec_products) X) = n" using assms by blast
  have p: "probs predict_proba X = map (\<lambda>i. map (\<lambda>pr. predict_proba pr X ! i) rec_products) [0..<n]"
    using np_transpose_map [OF ne, of "\<lambda>pr. predict_proba pr X"] h by (simp add: probs_def)
  show "length (probs predict_proba X) = n" using p by simp
  show "r < n \<Longrightarrow> probs predict_proba X ! r = map (\<lambda>pr. predict_proba pr X ! r) rec_products"
    using p by simp
qed

lemma out_of_rows_of_five:
  assumes ne: "preds \<noteq> []" and five: "\<forall>q\<in>set preds. length q = 5"
    and len: "length preds = length ids"
  shows "out ids preds = Inr (map (\<lambda>r. (ids ! r, preds ! r)) [0..<length ids])"
proof -
  obtain q0 rest where pq: "preds = q0 # rest" using ne by (cases preds) auto
  have l0: "length q0 = 5" using five pq by simp
  have col: "out_column ids preds i = Inr (map (\<lambda>q. q ! i) preds)" if "i \<in> set [0..<5]" for i
  proof -
    have "i < 5" using that by simp
    then have "np_column preds i = Inr (map (\<lambda>q. q ! i) preds)"
      using five l0 by (simp add: np_column_def pq)
    then show ?thesis using len by (simp add: out_column_def)
  qed
  have tr: "traverse (out_column ids preds) [0..<5] = Inr (map (\<lambda>i. map (\<lambda>q. q ! i) preds) [0..<5])"
    using col by (rule traverse_all_Inr)
  have row: "map (\<lambda>c. c ! r) (map (\<lambda>i. map (\<lambda>q. q ! i) preds) [0..<5]) = preds ! r"
    if "r < length ids" for r
  proof -
    have r: "r < length preds" using that len by simp
    then have l: "length (preds ! r) = 5" using five by simp
    have "map (\<lambda>c. c ! r) (map (\<lambda>i. map (\<lambda>q. q ! i) preds) [0..<5])
        = map (\<lambda>i. preds ! r ! i) [0..<5]"
      using r by simp
    also have "\<dots> = preds ! r" using l map_nth [of "preds ! r"] by simp
    finally show ?thesis .
  qed
  have "map (\<lambda>r. (ids ! r, map (\<lambda>c. c ! r) (map (\<lambda>i. map (\<lambda>q. q ! i) preds) [0..<5])))
          [0..<length ids]
      = map (\<lambda>r. (ids ! r, preds ! r)) [0..<length ids]"
    using row by simp
  then show ?thesis using tr by (simp add: out_def)
qed

text \<open>
  C4. For a non-empty test table and classifiers that give one probability per row, the
  recommendation file is written without an exception and has one line per row of the
  test table, in its order, with the customer id of the row and five product codes:
  five distinct members of \<open>rec_products\<close>, namely the products at the five column
  indices that the top-5 selection returns for the row of probabilities of that
  customer (descending, no other product with a greater probability).
\<close>

theorem output_has_top_five_products_per_customer:
  assumes "is_argsort srt"
    and "Xtest \<noteq> []"
    and "\<forall>pr\<in>set rec_products. length (predict_proba pr Xtest) = length Xtest"
    and "ids = map fst Xtest"
  shows "\<exists>rows. out ids (test_preds srt (probs predict_proba Xtest)) = Inr rows
      \<and> length rows = length Xtest
      \<and> (\<forall>r<length Xtest. \<exists>sel.
            rows ! r = (fst (Xtest ! r), map (\<lambda>j. rec_products ! j) sel)
            \<and> length sel = 5
            \<and> is_top_k 5 (map (\<lambda>pr. predict_proba pr Xtest ! r) rec_products) sel
            \<and> distinct (snd (rows ! r))
            \<and> set (snd (rows ! r)) \<subseteq> set rec_products)"
proof -
  let ?n = "length Xtest"
  let ?ps = "probs predict_proba Xtest"
  let ?sels = "likeliestprods srt (- 6) ?ps"
  let ?preds = "test_preds srt ?ps"
  have n: "0 < ?n" using assms(2) by simp
  have lps: "length ?ps = ?n"
    using probs_rows(1) [of predict_proba Xtest ?n] assms(3) by blast
  have row: "?ps ! r = map (\<lambda>pr. predict_proba pr Xtest ! r) rec_products" if "r < ?n" for r
    using probs_rows(2) [of predict_proba Xtest ?n r] assms(3) that by blast
  have lsel: "length ?sels = ?n" using lps by (simp add: likeliestprods_def)
  have top: "is_top_k 5 (?ps ! r) (?sels ! r)" if "r < ?n" for r
    using likeliestprods_row [OF assms(1), of r ?ps 5] that lps by simp
  have l5: "length (?sels ! r) = 5" if "r < ?n" for r
    using top [OF that] row [OF that] by (simp add: is_top_k_def length_rec_products)
  have pr: "?preds ! r = map (\<lambda>j. rec_products ! j) (?sels ! r)" if "r < ?n" for r
    using that lsel by (simp add: test_preds_def)
  have lpreds: "length ?preds = ?n" using lsel by (simp add: test_preds_def)
  have five: "\<forall>q\<in>set ?preds. length q = 5"
  proof
    fix q assume "q \<in> set ?preds"
    then obtain r where "r < ?n" "q = ?preds ! r" using lpreds by (metis in_set_conv_nth)
    then show "length q = 5" using pr l5 by simp
  qed
  have ne: "?preds \<noteq> []" using lpreds n by auto
  have lid: "length ids = ?n" using assms(4) by simp
  have o: "out ids ?preds = Inr (map (\<lambda>r. (ids ! r, ?preds ! r)) [0..<length ids])"
    using out_of_rows_of_five [OF ne five] lpreds lid by simp
  let ?rows = "map (\<lambda>r. (ids ! r, ?preds ! r)) [0..<length ids]"
  have each: "\<exists>sel. ?rows ! r = (fst (Xtest ! r), map (\<lambda>j. rec_products ! j) sel)
            \<and> length sel = 5
            \<and> is_top_k 5 (map (\<lambda>pr. predict_proba pr Xtest ! r) rec_products) sel
            \<and> distinct (snd (?rows ! r))
            \<and> set (snd (?rows ! r)) \<subseteq> set rec_products" if r: "r < ?n" for r
  proof -
    let ?sel = "?sels ! r"
    have t: "is_top_k 5 (map (\<lambda>pr. predict_proba pr Xtest ! r) rec_products) ?sel"
      using top [OF r] row [OF r] by simp
    then have d: "distinct ?sel" and b: "\<forall>j\<in>set ?sel. j < length rec_products"
      by (simp_all add: is_top_k_def)
    have rr: "?rows ! r = (fst (Xtest ! r), map (\<lambda>j. rec_products ! j) ?sel)"
      using r lid pr [OF r] assms(4) by simp
    have "inj_on (nth rec_products) (set ?sel)"
      using distinct_rec_products b by (intro inj_on_nth) simp_all
    then have dc: "distinct (map (\<lambda>j. rec_products ! j) ?sel)" using d by (simp add: distinct_map)
    have sc: "set (map (\<lambda>j. rec_products ! j) ?sel) \<subseteq> set rec_products" using b by auto
    show ?thesis using rr l5 [OF r] t dc sc by (intro exI [of _ ?sel]) simp
  qed
  have "length ?rows = ?n" using lid by simp
  then show ?thesis using o each by blast
qed

theorem output_has_top_five_products_per_customer_witness:
  "(\<exists>rows. out [15889, 1170544]
        (test_preds argsort
          (probs (\<lambda>pr X. map (\<lambda>row. if pr = ''ind_recibo_ult1'' then 0.9
                 else if pr = ''ind_cco_fin_ult1'' then 0.5
                 else if pr = ''ind_nom_pens_ult1'' then 0.4
                 else if pr = ''ind_nomina_ult1'' then 0.3
                 else if pr = ''ind_tjcr_fin_ult1'' then 0.2 else (0.01 :: real)) X)
            [(15889 :: int, [Some (35 :: real)]), (1170544, [Some 22])])) = Inr rows
      \<and> length rows = 2
      \<and> rows ! 0 = (15889, [''ind_recibo_ult1'', ''ind_cco_fin_ult1'', ''ind_nom_pens_ult1'',
            ''ind_nomina_ult1'', ''ind_tjcr_fin_ult1'']))"
proof -
  let ?pp = "\<lambda>pr (X :: (int \<times> real option list) list).
      map (\<lambda>row. if pr = ''ind_recibo_ult1'' then 0.9
                 else if pr = ''ind_cco_fin_ult1'' then 0.5
                 else if pr = ''ind_nom_pens_ult1'' then 0.4
                 else if pr = ''ind_nomina_ult1'' then 0.3
                 else if pr = ''ind_tjcr_fin_ult1'' then 0.2 else (0.01 :: real)) X"
  let ?X = "[(15889 :: int, [Some (35 :: real)]), (1170544, [Some 22])]"
  have a: "is_argsort (argsort :: real list \<Rightarrow> nat list)" by (rule argsort_is_argsort)
  have ne: "?X \<noteq> []" by simp
  have l: "\<forall>pr\<in>set rec_products. length (?pp pr ?X) = length ?X" by simp
  have i: "[15889, 1170544] = map fst ?X" by simp
  obtain rows where r: "out [15889, 1170544] (test_preds argsort (probs ?pp ?X)) = Inr rows"
    "length rows = length ?X"
    "\<forall>r<length ?X. \<exists>sel. rows ! r = (fst (?X ! r), map (\<lambda>j. rec_products ! j) sel)
        \<and> length sel = 5
        \<and> is_top_k 5 (map (\<lambda>pr. ?pp pr ?X ! r) rec_products) sel
        \<and> distinct (snd (rows ! r)) \<and> set (snd (rows ! r)) \<subseteq> set rec_products"
    using output_has_top_five_products_per_customer
      [where srt = argsort and Xtest = ?X and predict_proba = ?pp and ids = "[15889, 1170544]",
        OF a ne l i]
    by blast
  have p: "probs ?pp ?X =
      [[0.9, 0.5, 0.4, 0.3, 0.2, 0.01, 0.01, 0.01, 0.01, 0.01, 0.01, 0.01],
       [0.9, 0.5, 0.4, 0.3, 0.2, 0.01, 0.01, 0.01, 0.01, 0.01, 0.01, 0.01]]"
    by (simp add: probs_def np_transpose_def rec_products_def upt_rec)
  have s: "likeliestprods argsort (- 6) (probs ?pp ?X) = [[0, 1, 2, 3, 4], [0, 1, 2, 3, 4]]"
    unfolding p by (simp add: likeliestprods_def argsort_def slice_down_to_def upt_rec)
  have t: "test_preds argsort (probs ?pp ?X) =
     [[''ind_recibo_ult1'', ''ind_cco_fin_ult1'', ''ind_nom_pens_ult1'',
       ''ind_nomina_ult1'', ''ind_tjcr_fin_ult1''],
      [''ind_recibo_ult1'', ''ind_cco_fin_ult1'', ''ind_nom_pens_ult1'',
       ''ind_nomina_ult1'', ''ind_tjcr_fin_ult1'']]"
    unfolding test_preds_def s by (simp add: rec_products_def)
  have o: "out [15889, 1170544] (test_preds argsort (probs ?pp ?X)) =
     Inr [(15889, [''ind_recibo_ult1'', ''ind_cco_fin_ult1'', ''ind_nom_pens_ult1'',
            ''ind_nomina_ult1'', ''ind_tjcr_fin_ult1'']),
          (1170544, [''ind_recibo_ult1'', ''ind_cco_fin_ult1'', ''ind_nom_pens_ult1'',
            ''ind_nomina_ult1'', ''ind_tjcr_fin_ult1''])]"
    unfolding t by (simp add: out_def out_column_def np_column_def upt_rec)
  have rw: "rows = [(15889, [''ind_recibo_ult1'', ''ind_cco_fin_ult1'', ''ind_nom_pens_ult1'',
            ''ind_nomina_ult1'', ''ind_tjcr_fin_ult1'']),
          (1170544, [''ind_recibo_ult1'', ''ind_cco_fin_ult1'', ''ind_nom_pens_ult1'',
            ''ind_nomina_ult1'', ''ind_tjcr_fin_ult1''])]"
    using r(1) unfolding o by (rule Inr_inject [symmetric])
  have r0: "rows ! 0 = (15889, [''ind_recibo_ult1'', ''ind_cco_fin_ult1'', ''ind_nom_pens_ult1'',
            ''ind_nomina_ult1'', ''ind_tjcr_fin_ult1''])"
    unfolding rw by simp
  show ?thesis using r(1) r(2) r0 by simp
qed

section \<open>Labels of newly added products\<close>

lemma merge_left_mem:
  assumes "(k, a, b) \<in> set (merge_left left right)"
  shows "(k, a) \<in> set left \<and> (b = None \<or> (\<exists>p. b = Some p \<and> (k, p) \<in> set right))"
proof -
  obtain k0 a0 where l: "(k0, a0) \<in> set left"
    and m: "(k, a, b) \<in> set (case filter (\<lambda>(k', b). k' = k0) right of
           [] \<Rightarrow> [(k0, a0, None)] | ms \<Rightarrow> map (\<lambda>(k', b). (k0, a0, Some b)) ms)"
    using assms by (auto simp: merge_left_def)
  show ?thesis
  proof (cases "filter (\<lambda>(k', b). k' = k0) right")
    case Nil
    then show ?thesis using l m by simp
  next
    case (Cons x xs)
    then have "(k, a, b) \<in> set (map (\<lambda>(k', b). (k0, a0, Some b)) (x # xs))"
      using m by simp
    then obtain e where e: "e \<in> set (x # xs)" "(k, a, b) = (case e of (k', b) \<Rightarrow> (k0, a0, Some b))"
      by (metis (no_types, lifting) imageE list.set_map)
    obtain k' p where ep: "e = (k', p)" by (cases e) auto
    have "e \<in> set (filter (\<lambda>(k', b). k' = k0) right)" using e(1) Cons by simp
    then have "k' = k0" "(k', p) \<in> set right" using ep by auto
    then show ?thesis using l e(2) ep by auto
  qed
qed

lemma added_label_flags:
  assumes "x = 0 \<or> x = 1" "y = 0 \<or> y = 1"
  shows "added_label x y = (if x = 1 \<and> y = 0 then 1 else 0)"
  using assms by (auto simp: added_label_def)

lemma fillna0_flag:
  assumes "c \<in> {None, Some 0, Some 1}"
  shows "fillna0 c = 0 \<or> fillna0 c = 1"
  using assms by (auto simp: fillna0_def)

text \<open>
  C2. An entry of the label table is the current-month flag minus the prior-month flag
  (both after \<open>fillna(0)\<close>), with \<open>-1\<close> replaced by 0. When every flag of the two tables
  is 0, 1 or missing, every row has twelve entries, each of them 0 or 1 (so none is
  negative): 1 exactly when the product is owned now and was not owned before.
\<close>

theorem new_product_labels_in_zero_one:
  assumes "\<forall>r\<in>set data \<union> set pdata. \<forall>pr\<in>set rec_products. flags r pr \<in> {None, Some 0, Some 1}"
  shows "get_new_products data pdata =
       map (\<lambda>m. map (\<lambda>pr. if col_x m pr - col_y m pr = - 1 then 0 else col_x m pr - col_y m pr)
                  rec_products)
         (merge_left (map (\<lambda>r. (ncodpers r, flags r)) data) (map (\<lambda>r. (ncodpers r, flags r)) pdata))
     \<and> get_new_products data pdata =
       map (\<lambda>m. map (\<lambda>pr. if col_x m pr = 1 \<and> col_y m pr = 0 then 1 else 0) rec_products)
         (merge_left (map (\<lambda>r. (ncodpers r, flags r)) data) (map (\<lambda>r. (ncodpers r, flags r)) pdata))
     \<and> (\<forall>row\<in>set (get_new_products data pdata).
           length row = 12 \<and> (\<forall>v\<in>set row. (v = 0 \<or> v = 1) \<and> 0 \<le> v))"
proof -
  let ?merged = "merge_left (map (\<lambda>r. (ncodpers r, flags r)) data)
      (map (\<lambda>r. (ncodpers r, flags r)) pdata)"
  have d: "get_new_products data pdata =
       map (\<lambda>m. map (\<lambda>pr. added_label (col_x m pr) (col_y m pr)) rec_products) ?merged"
    by (simp add: get_new_products_def Let_def)
  have c1: "get_new_products data pdata =
       map (\<lambda>m. map (\<lambda>pr. if col_x m pr - col_y m pr = - 1 then 0 else col_x m pr - col_y m pr)
                  rec_products) ?merged"
    unfolding d by (simp add: added_label_def Let_def)
  have xy: "(col_x m pr = 0 \<or> col_x m pr = 1) \<and> (col_y m pr = 0 \<or> col_y m pr = 1)"
    if m: "m \<in> set ?merged" and pr: "pr \<in> set rec_products" for m pr
  proof -
    obtain k a b where mk: "m = (k, a, b)" by (cases m) auto
    have mem: "(k, a) \<in> set (map (\<lambda>r. (ncodpers r, flags r)) data)"
      "b = None \<or> (\<exists>p. b = Some p \<and> (k, p) \<in> set (map (\<lambda>r. (ncodpers r, flags r)) pdata))"
      using merge_left_mem [of k a b] m mk by blast+
    obtain r where r: "r \<in> set data" "a = flags r" using mem(1) by auto
    have x: "col_x m pr = 0 \<or> col_x m pr = 1"
      using fillna0_flag [of "flags r pr"] assms r pr by (simp add: col_x_def mk)
    have y: "col_y m pr = 0 \<or> col_y m pr = 1"
    proof (cases b)
      case None
      then show ?thesis by (simp add: col_y_def mk fillna0_def)
    next
      case (Some p)
      then obtain q where q: "q \<in> set pdata" "p = flags q" using mem(2) by auto
      show ?thesis
        using fillna0_flag [of "flags q pr"] assms q pr Some by (simp add: col_y_def mk)
    qed
    show ?thesis using x y by blast
  qed
  have c2: "get_new_products data pdata =
       map (\<lambda>m. map (\<lambda>pr. if col_x m pr = 1 \<and> col_y m pr = 0 then 1 else 0) rec_products) ?merged"
    unfolding d using xy by (simp add: added_label_flags)
  have c3: "\<forall>row\<in>set (get_new_products data pdata).
           length row = 12 \<and> (\<forall>v\<in>set row. (v = 0 \<or> v = 1) \<and> 0 \<le> v)"
    unfolding c2 by (auto simp: length_rec_products)
  show ?thesis using c1 c2 c3 by blast
qed

theorem new_product_labels_in_zero_one_witness:
  "get_new_products
     [\<lparr>fecha_dato = ''2015-06-28'', ncodpers = 15889,
        flags = (\<lambda>pr. Some 0)(''ind_recibo_ult1'' := Some 1, ''ind_cco_fin_ult1'' := Some 1)\<rparr>,
      \<lparr>fecha_dato = ''2015-06-28'', ncodpers = 1170544,
        flags = (\<lambda>pr. Some 0)(''ind_tjcr_fin_ult1'' := Some 1, ''ind_nom_pens_ult1'' := None)\<rparr>]
     [\<lparr>fecha_dato = ''2015-05-28'', ncodpers = 15889,
        flags = (\<lambda>pr. Some 0)(''ind_cco_fin_ult1'' := Some 1, ''ind_nomina_ult1'' := Some 1)\<rparr>]
   = [[1, 0, 0, 0, 0, 0, 0, 0, 0, 0, 0, 0], [0, 0, 0, 0, 1, 0, 0, 0, 0, 0, 0, 0]]"
proof -
  let ?a = "\<lparr>fecha_dato = ''2015-06-28'', ncodpers = 15889,
        flags = (\<lambda>pr. Some 0)(''ind_recibo_ult1'' := Some 1, ''ind_cco_fin_ult1'' := Some 1)\<rparr>"
  let ?b = "\<lparr>fecha_dato = ''2015-06-28'', ncodpers = 1170544,
        flags = (\<lambda>pr. Some 0)(''ind_tjcr_fin_ult1'' := Some 1, ''ind_nom_pens_ult1'' := None)\<rparr>"
  let ?p = "\<lparr>fecha_dato = ''2015-05-28'', ncodpers = 15889,
        flags = (\<lambda>pr. Some 0)(''ind_cco_fin_ult1'' := Some 1, ''ind_nomina_ult1'' := Some 1)\<rparr>"
  have h: "\<forall>r\<in>set [?a, ?b] \<union> set [?p]. \<forall>pr\<in>set rec_products.
      flags r pr \<in> {None, Some 0, Some (1 :: real)}"
    by simp
  have m: "merge_left (map (\<lambda>r. (ncodpers r, flags r)) [?a, ?b]) (map (\<lambda>r. (ncodpers r, flags r)) [?p])
      = [(15889, flags ?a, Some (flags ?p)), (1170544, flags ?b, None)]"
    by (simp add: merge_left_def)
  have "get_new_products [?a, ?b] [?p] =
       map (\<lambda>m. map (\<lambda>pr. if col_x m pr = 1 \<and> col_y m pr = 0 then 1 else 0) rec_products)
         (merge_left (map (\<lambda>r. (ncodpers r, flags r)) [?a, ?b]) (map (\<lambda>r. (ncodpers r, flags r)) [?p]))"
    using new_product_labels_in_zero_one [OF h] by blast
  then show ?thesis
    unfolding m by (simp add: rec_products_def col_x_def col_y_def fillna0_def)
qed

lemma filter_key_at_most_one:
  assumes "distinct (map f xs)"
  shows "filter (\<lambda>x. f x = k) xs = (case find (\<lambda>x. f x = k) xs of None \<Rightarrow> [] | Some x \<Rightarrow> [x])"
  using assms
proof (induction xs)
  case Nil
  show ?case by simp
next
  case (Cons x xs)
  show ?case
  proof (cases "f x = k")
    case True
    have "f x \<notin> f ` set xs" using Cons.prems by simp
    then have "\<forall>z\<in>set xs. f z \<noteq> k" using True by blast
    then have "filter (\<lambda>x. f x = k) xs = []" by (simp add: filter_empty_conv)
    then show ?thesis using True by simp
  next
    case False
    then show ?thesis using Cons by simp
  qed
qed

lemma find_None_absent: "find P xs = None \<longleftrightarrow> (\<forall>x\<in>set xs. \<not> P x)"
  by (auto simp: find_None_iff)

lemma get_new_products_concat:
  "get_new_products data pdata = concat (map (label_rows pdata) data)"
proof -
  let ?h = "\<lambda>r. (ncodpers r, flags r)"
  let ?f = "\<lambda>m. map (\<lambda>pr. added_label (col_x m pr) (col_y m pr)) rec_products"
  have blk: "map ?f (case filter (\<lambda>(k', b). k' = ncodpers r) (map ?h pdata) of
           [] \<Rightarrow> [(ncodpers r, flags r, None)]
         | ms \<Rightarrow> map (\<lambda>(k', b). (ncodpers r, flags r, Some b)) ms) = label_rows pdata r" for r
  proof -
    have fm: "filter (\<lambda>(k', b). k' = ncodpers r) (map ?h pdata)
        = map ?h (filter (\<lambda>p. ncodpers p = ncodpers r) pdata)"
      by (simp add: filter_map comp_def)
    show ?thesis
      unfolding fm label_rows_def
      by (cases "filter (\<lambda>p. ncodpers p = ncodpers r) pdata")
        (simp_all add: col_x_def col_y_def fillna0_def comp_def)
  qed
  have "get_new_products data pdata = map ?f (merge_left (map ?h data) (map ?h pdata))"
    by (simp add: get_new_products_def Let_def)
  also have "\<dots> = concat (map (\<lambda>r. map ?f (case filter (\<lambda>(k', b). k' = ncodpers r) (map ?h pdata) of
           [] \<Rightarrow> [(ncodpers r, flags r, None)]
         | ms \<Rightarrow> map (\<lambda>(k', b). (ncodpers r, flags r, Some b)) ms)) data)"
    by (simp add: merge_left_def map_concat comp_def)
  also have "\<dots> = concat (map (label_rows pdata) data)" using blk by simp
  finally show ?thesis .
qed

lemma label_rows_nonempty: "label_rows pdata r \<noteq> []"
  by (simp add: label_rows_def split: list.splits)

lemma length_concat_nonempty:
  assumes "\<forall>x\<in>set xs. f x \<noteq> []"
  shows "length xs \<le> length (concat (map f xs))"
  using assms
proof (induction xs)
  case Nil
  show ?case by simp
next
  case (Cons x xs)
  then have "1 \<le> length (f x)" by (cases "f x") auto
  then show ?case using Cons by simp
qed

lemma concat_map_singleton: "concat (map (\<lambda>x. [g x]) xs) = map g xs"
  by (induction xs) auto

lemma label_rows_absent:
  assumes "ncodpers r \<notin> ncodpers ` set pdata"
  shows "label_rows pdata r = [map (\<lambda>pr. added_label (fillna0 (flags r pr)) 0) rec_products]"
proof -
  have "\<forall>p\<in>set pdata. ncodpers p \<noteq> ncodpers r" using assms by (metis imageI)
  then have "filter (\<lambda>p. ncodpers p = ncodpers r) pdata = []"
    by (simp add: filter_empty_conv)
  then show ?thesis by (simp add: label_rows_def)
qed

lemma label_rows_distinct:
  assumes "distinct (map ncodpers pdata)"
  shows "label_rows pdata r =
     [map (\<lambda>pr. added_label (fillna0 (flags r pr))
              (case find (\<lambda>p. ncodpers p = ncodpers r) pdata of
                 None \<Rightarrow> 0 | Some p \<Rightarrow> fillna0 (flags p pr))) rec_products]"
  unfolding label_rows_def filter_key_at_most_one [OF assms]
  by (cases "find (\<lambda>p. ncodpers p = ncodpers r) pdata") simp_all

text \<open>
  C9. The label table is the concatenation, over the rows of the current month in their
  order, of the label rows of each: no row of the current month is dropped, whether or
  not its customer has a prior-month row (the intersection of the ids does not enter
  the result). When the prior-month ids are distinct there is exactly one label row per
  current-month row, computed against the prior-month row of the customer or, for a
  customer without one, against zeros; for such a customer every product now owned
  (flag 1) gets the label 1.
\<close>

theorem one_label_row_per_current_month_row:
  "get_new_products data pdata = concat (map (label_rows pdata) data)
   \<and> length data \<le> length (get_new_products data pdata)
   \<and> ((\<forall>r\<in>set data. ncodpers r \<notin> ncodpers ` set pdata) \<longrightarrow>
        get_new_products data pdata =
          map (\<lambda>r. map (\<lambda>pr. added_label (fillna0 (flags r pr)) 0) rec_products) data)
   \<and> (distinct (map ncodpers pdata) \<longrightarrow>
        length (get_new_products data pdata) = length data
        \<and> (\<forall>i<length data. \<forall>j<length rec_products.
              get_new_products data pdata ! i ! j =
                added_label (fillna0 (flags (data ! i) (rec_products ! j)))
                  (case find (\<lambda>p. ncodpers p = ncodpers (data ! i)) pdata of
                     None \<Rightarrow> 0 | Some p \<Rightarrow> fillna0 (flags p (rec_products ! j))))
        \<and> (\<forall>i<length data. ncodpers (data ! i) \<notin> ncodpers ` set pdata \<longrightarrow>
              (\<forall>j<length rec_products. flags (data ! i) (rec_products ! j) = Some 1 \<longrightarrow>
                 get_new_products data pdata ! i ! j = 1)))"
proof (intro conjI impI)
  show c: "get_new_products data pdata = concat (map (label_rows pdata) data)"
    by (rule get_new_products_concat)
  show "length data \<le> length (get_new_products data pdata)"
    unfolding c by (rule length_concat_nonempty) (simp add: label_rows_nonempty)
next
  assume "\<forall>r\<in>set data. ncodpers r \<notin> ncodpers ` set pdata"
  then have eq: "map (label_rows pdata) data
      = map (\<lambda>r. [map (\<lambda>pr. added_label (fillna0 (flags r pr)) 0) rec_products]) data"
    by (simp add: label_rows_absent)
  show "get_new_products data pdata =
      map (\<lambda>r. map (\<lambda>pr. added_label (fillna0 (flags r pr)) 0) rec_products) data"
    unfolding get_new_products_concat eq by (rule concat_map_singleton)
next
  assume d: "distinct (map ncodpers pdata)"
  let ?row = "\<lambda>r. map (\<lambda>pr. added_label (fillna0 (flags r pr))
              (case find (\<lambda>p. ncodpers p = ncodpers r) pdata of
                 None \<Rightarrow> 0 | Some p \<Rightarrow> fillna0 (flags p pr))) rec_products"
  have eq: "map (label_rows pdata) data = map (\<lambda>r. [?row r]) data"
    using label_rows_distinct [OF d] by simp
  have g: "get_new_products data pdata = map ?row data"
    unfolding get_new_products_concat eq by (rule concat_map_singleton)
  show "length (get_new_products data pdata) = length data" unfolding g by simp
  show e: "\<forall>i<length data. \<forall>j<length rec_products.
              get_new_products data pdata ! i ! j =
                added_label (fillna0 (flags (data ! i) (rec_products ! j)))
                  (case find (\<lambda>p. ncodpers p = ncodpers (data ! i)) pdata of
                     None \<Rightarrow> 0 | Some p \<Rightarrow> fillna0 (flags p (rec_products ! j)))"
    unfolding g by simp
  show "\<forall>i<length data. ncodpers (data ! i) \<notin> ncodpers ` set pdata \<longrightarrow>
              (\<forall>j<length rec_products. flags (data ! i) (rec_products ! j) = Some 1 \<longrightarrow>
                 get_new_products data pdata ! i ! j = 1)"
  proof (intro allI impI)
    fix i j
    assume i: "i < length data" and a: "ncodpers (data ! i) \<notin> ncodpers ` set pdata"
      and j: "j < length rec_products" and o: "flags (data ! i) (rec_products ! j) = Some 1"
    have "\<forall>p\<in>set pdata. ncodpers p \<noteq> ncodpers (data ! i)" using a by (metis imageI)
    then have "find (\<lambda>p. ncodpers p = ncodpers (data ! i)) pdata = None"
      by (simp add: find_None_absent)
    then show "get_new_products data pdata ! i ! j = 1"
      using e i j o by (simp add: added_label_def fillna0_def)
  qed
qed

theorem one_label_row_per_current_month_row_witness:
  "get_new_products
     [\<lparr>fecha_dato = ''2015-06-28'', ncodpers = 15889,
        flags = (\<lambda>pr. Some 0)(''ind_recibo_ult1'' := Some 1, ''ind_cco_fin_ult1'' := Some 1)\<rparr>,
      \<lparr>fecha_dato = ''2015-06-28'', ncodpers = 1170544,
        flags = (\<lambda>pr. Some 0)(''ind_tjcr_fin_ult1'' := Some 1)\<rparr>]
     [\<lparr>fecha_dato = ''2015-05-28'', ncodpers = 15889,
        flags = (\<lambda>pr. Some 0)(''ind_cco_fin_ult1'' := Some 1)\<rparr>] ! 1 ! 4 = 1
   \<and> length (get_new_products
     [\<lparr>fecha_dato = ''2015-06-28'', ncodpers = 15889,
        flags = (\<lambda>pr. Some 0)(''ind_recibo_ult1'' := Some 1, ''ind_cco_fin_ult1'' := Some 1)\<rparr>,
      \<lparr>fecha_dato = ''2015-06-28'', ncodpers = 1170544,
        flags = (\<lambda>pr. Some 0)(''ind_tjcr_fin_ult1'' := Some 1)\<rparr>]
     [\<lparr>fecha_dato = ''2015-05-28'', ncodpers = 15889,
        flags = (\<lambda>pr. Some 0)(''ind_cco_fin_ult1'' := Some 1)\<rparr>]) = 2"
proof -
  let ?a = "\<lparr>fecha_dato = ''2015-06-28'', ncodpers = 15889,
        flags = (\<lambda>pr. Some (0 :: real))(''ind_recibo_ult1'' := Some 1, ''ind_cco_fin_ult1'' := Some 1)\<rparr>"
  let ?b = "\<lparr>fecha_dato = ''2015-06-28'', ncodpers = 1170544,
        flags = (\<lambda>pr. Some (0 :: real))(''ind_tjcr_fin_ult1'' := Some 1)\<rparr>"
  let ?p = "\<lparr>fecha_dato = ''2015-05-28'', ncodpers = 15889,
        flags = (\<lambda>pr. Some (0 :: real))(''ind_cco_fin_ult1'' := Some 1)\<rparr>"
  note t = one_label_row_per_current_month_row [of "[?a, ?b]" "[?p]"]
  have d: "distinct (map ncodpers [?p])" by simp
  have l: "length (get_new_products [?a, ?b] [?p]) = length [?a, ?b]"
    using t d by blast
  have x: "\<forall>i<length [?a, ?b]. ncodpers ([?a, ?b] ! i) \<notin> ncodpers ` set [?p] \<longrightarrow>
      (\<forall>j<length rec_products. flags ([?a, ?b] ! i) (rec_products ! j) = Some 1 \<longrightarrow>
         get_new_products [?a, ?b] [?p] ! i ! j = 1)"
    using t d by blast
  have i: "(1 :: nat) < length [?a, ?b]" "ncodpers ([?a, ?b] ! 1) \<notin> ncodpers ` set [?p]" by simp_all
  have j: "(4 :: nat) < length rec_products" "flags ([?a, ?b] ! 1) (rec_products ! 4) = Some 1"
    by (simp_all add: rec_products_def)
  have "get_new_products [?a, ?b] [?p] ! 1 ! 4 = 1" using x i j by blast
  then show ?thesis using l by simp
qed

section \<open>Lagged product features\<close>

lemma get_data_by_month_cases:
  "(if \<exists>r\<in>set csv. fecha_dato r \<in> set ms
    then \<exists>t. get_data_by_month csv ms = Inr t
    else get_data_by_month csv ms = Inl IndexError)"
proof -
  let ?ids = "filter (\<lambda>i. map fecha_dato csv ! i \<in> set ms) [0..<length (map fecha_dato csv)]"
  have e: "?ids = [] \<longleftrightarrow> \<not> (\<exists>r\<in>set csv. fecha_dato r \<in> set ms)"
  proof -
    have "?ids = [] \<longleftrightarrow> (\<forall>i<length csv. fecha_dato (csv ! i) \<notin> set ms)"
      by (auto simp: filter_empty_conv)
    also have "\<dots> \<longleftrightarrow> (\<forall>r\<in>set csv. fecha_dato r \<notin> set ms)"
      by (simp add: all_set_conv_all_nth)
    finally show ?thesis by simp
  qed
  show ?thesis
  proof (cases ?ids)
    case Nil
    then show ?thesis using e by (simp add: get_data_by_month_def Let_def)
  next
    case (Cons i0 rest)
    then have "\<exists>t. get_data_by_month csv ms = Inr t"
      by (simp add: get_data_by_month_def Let_def)
    then show ?thesis using e Cons by auto
  qed
qed

lemma merge_left_block:
  "merge_left ((k, a) # left) right =
     (case filter (\<lambda>(k', b). k' = k) right of
        [] \<Rightarrow> [(k, a, None)]
      | ms \<Rightarrow> map (\<lambda>(k', b). (k, a, Some b)) ms) @ merge_left left right"
  by (simp add: merge_left_def)

lemma merge_left_Nil: "merge_left [] right = []"
  by (simp add: merge_left_def)

lemma merge_left_covers:
  assumes "(k, a) \<in> set left"
  shows "\<exists>b. (k, a, b) \<in> set (merge_left left right)"
  using assms
proof (induction left)
  case Nil
  then show ?case by simp
next
  case (Cons x left)
  obtain k0 a0 where x: "x = (k0, a0)" by (cases x) auto
  show ?case
  proof (cases "(k, a) = (k0, a0)")
    case True
    have "\<exists>b. (k0, a0, b) \<in> set (case filter (\<lambda>(k', b). k' = k0) right of
        [] \<Rightarrow> [(k0, a0, None)] | ms \<Rightarrow> map (\<lambda>(k', b). (k0, a0, Some b)) ms)"
      by (cases "filter (\<lambda>(k', b). k' = k0) right") (auto split: prod.splits)
    then show ?thesis using True x by (auto simp: merge_left_block)
  next
    case False
    then have "(k, a) \<in> set left" using Cons.prems x by auto
    then show ?thesis using Cons.IH x by (auto simp: merge_left_block)
  qed
qed

lemma merge_left_length: "length left \<le> length (merge_left left right)"
proof (induction left)
  case Nil
  show ?case by (simp add: merge_left_Nil)
next
  case (Cons x left)
  obtain k0 a0 where x: "x = (k0, a0)" by (cases x) auto
  have "1 \<le> length (case filter (\<lambda>(k', b). k' = k0) right of
        [] \<Rightarrow> [(k0, a0, None)] | ms \<Rightarrow> map (\<lambda>(k', b). (k0, a0, Some b)) ms)"
    by (cases "filter (\<lambda>(k', b). k' = k0) right") simp_all
  then show ?case using Cons x by (simp add: merge_left_block)
qed

lemma merge_left_distinct_keys:
  assumes "distinct (map fst right)"
  shows "map fst (merge_left left right) = map fst left"
proof (induction left)
  case Nil
  show ?case by (simp add: merge_left_Nil)
next
  case (Cons x left)
  obtain k0 a0 where x: "x = (k0, a0)" by (cases x) auto
  have f: "filter (\<lambda>(k', b). k' = k0) right
      = (case find (\<lambda>kb. fst kb = k0) right of None \<Rightarrow> [] | Some kb \<Rightarrow> [kb])"
    using filter_key_at_most_one [OF assms, of k0] by (simp add: case_prod_unfold)
  have "map fst (case filter (\<lambda>(k', b). k' = k0) right of
        [] \<Rightarrow> [(k0, a0, None)] | ms \<Rightarrow> map (\<lambda>(k', b). (k0, a0, Some b)) ms) = [k0]"
    unfolding f by (cases "find (\<lambda>kb. fst kb = k0) right") (auto split: prod.splits)
  then show ?case using Cons x by (simp add: merge_left_block)
qed

lemma fillna0_Some_fillna0: "fillna0 (Some (fillna0 c)) = fillna0 c"
  by (simp add: fillna0_def)

lemma extends_row_refl: "extends_row 0 r r"
  by (simp add: extends_row_def)

lemma extends_row_trans:
  assumes "extends_row m r r1" "extends_row n r1 r2"
  shows "extends_row (m + n) r r2"
proof -
  let ?a = "snd r" and ?b = "snd r1" and ?c = "snd r2"
  have le: "length ?a \<le> length ?b" using assms(1) by (simp add: extends_row_def)
  have ab: "map fillna0 (take (length ?a) ?b) = map fillna0 ?a"
    and bc: "map fillna0 (take (length ?b) ?c) = map fillna0 ?b"
    using assms by (simp_all add: extends_row_def)
  have "take (length ?a) ?c = take (length ?a) (take (length ?b) ?c)"
    using le by (simp add: min_def)
  then have "map fillna0 (take (length ?a) ?c) = take (length ?a) (map fillna0 (take (length ?b) ?c))"
    by (simp add: take_map)
  also have "\<dots> = map fillna0 (take (length ?a) ?b)" by (simp add: bc take_map)
  finally have ac: "map fillna0 (take (length ?a) ?c) = map fillna0 ?a" using ab by simp
  show ?thesis using assms ac by (simp add: extends_row_def algebra_simps)
qed

lemma length_month_cells: "length (month_cells b) = length products"
  by (cases b) (simp_all add: month_cells_def)

lemma join_month_alt:
  "join_month merged temp_data =
     map (\<lambda>(k, a, b). (k, map (\<lambda>c. Some (fillna0 c)) (a @ month_cells b)))
       (merge_left merged (map (\<lambda>r. (ncodpers r, flags r)) temp_data))"
  by (simp add: join_month_def)

lemma join_month_mem:
  assumes "r' \<in> set (join_month merged temp_data)"
  obtains k a b where "r' = (k, map (\<lambda>c. Some (fillna0 c)) (a @ month_cells b))"
    "(k, a) \<in> set merged"
    "b = None \<or> (\<exists>p. b = Some p \<and> (k, p) \<in> set (map (\<lambda>r. (ncodpers r, flags r)) temp_data))"
proof -
  obtain m where m: "m \<in> set (merge_left merged (map (\<lambda>r. (ncodpers r, flags r)) temp_data))"
    "r' = (case m of (k, a, b) \<Rightarrow> (k, map (\<lambda>c. Some (fillna0 c)) (a @ month_cells b)))"
    using assms unfolding join_month_alt by auto
  obtain k a b where kab: "m = (k, a, b)" by (cases m) auto
  have 1: "r' = (k, map (\<lambda>c. Some (fillna0 c)) (a @ month_cells b))" using m(2) kab by simp
  have 2: "(k, a) \<in> set merged \<and> (b = None
      \<or> (\<exists>p. b = Some p \<and> (k, p) \<in> set (map (\<lambda>r. (ncodpers r, flags r)) temp_data)))"
    using m(1) kab by (intro merge_left_mem) simp
  show ?thesis using that [OF 1] 2 by blast
qed

lemma extends_row_join:
  "extends_row 1 (k, a) (k, map (\<lambda>c. Some (fillna0 c)) (a @ month_cells b))"
  by (simp add: extends_row_def length_month_cells comp_def fillna0_Some_fillna0)

lemma join_month_no_missing: "no_missing (join_month merged temp_data)"
proof -
  have "None \<notin> set (snd r')" if "r' \<in> set (join_month merged temp_data)" for r'
    using that by (rule join_month_mem) auto
  then show ?thesis by (simp add: no_missing_def)
qed

lemma join_month_from:
  assumes "r' \<in> set (join_month merged temp_data)"
  shows "\<exists>r\<in>set merged. extends_row 1 r r'"
  using assms by (rule join_month_mem) (metis extends_row_join)

lemma join_month_keeps:
  assumes "r \<in> set merged"
  shows "\<exists>r'\<in>set (join_month merged temp_data). extends_row 1 r r'"
proof -
  obtain k a where r: "r = (k, a)" by (cases r) auto
  have "(k, a) \<in> set merged" using assms r by simp
  then obtain b where
    "(k, a, b) \<in> set (merge_left merged (map (\<lambda>r. (ncodpers r, flags r)) temp_data))"
    using merge_left_covers [of k a merged "map (\<lambda>r. (ncodpers r, flags r)) temp_data"] by blast
  then have "(k, map (\<lambda>c. Some (fillna0 c)) (a @ month_cells b)) \<in> set (join_month merged temp_data)"
    unfolding join_month_alt by force
  then show ?thesis using r extends_row_join by blast
qed

lemma join_month_length: "length merged \<le> length (join_month merged temp_data)"
  unfolding join_month_alt by (simp add: merge_left_length)

lemma join_month_distinct_keys:
  assumes "distinct (map ncodpers temp_data)"
  shows "map fst (join_month merged temp_data) = map fst merged"
proof -
  let ?right = "map (\<lambda>r. (ncodpers r, flags r)) temp_data"
  have d: "distinct (map fst ?right)" using assms by (simp add: comp_def)
  have "map fst (join_month merged temp_data) = map fst (merge_left merged ?right)"
    unfolding join_month_alt by (simp add: comp_def case_prod_unfold)
  then show ?thesis using merge_left_distinct_keys [OF d] by simp
qed

lemma join_month_absent_zero:
  assumes "(k, a) \<in> set merged" "k \<notin> ncodpers ` set temp_data"
  shows "(k, map (\<lambda>c. Some (fillna0 c)) a @ replicate (length products) (Some 0))
     \<in> set (join_month merged temp_data)"
proof -
  let ?right = "map (\<lambda>r. (ncodpers r, flags r)) temp_data"
  obtain b where b: "(k, a, b) \<in> set (merge_left merged ?right)"
    using merge_left_covers [OF assms(1), of ?right] by blast
  have "\<not> (\<exists>p. (k, p) \<in> set ?right)" using assms(2) by auto
  then have "b = None" using merge_left_mem [OF b] by blast
  then have "(k, map (\<lambda>c. Some (fillna0 c)) (a @ month_cells None)) \<in> set (join_month merged temp_data)"
    using b unfolding join_month_alt by force
  then show ?thesis by (simp add: month_cells_def fillna0_def)
qed

lemma get_temp_features_returns:
  assumes "\<forall>m\<in>set months. m \<in> fecha_dato ` set csv"
  shows "\<exists>res. get_temp_features csv X months = Inr res"
  using assms
proof (induction months arbitrary: X)
  case Nil
  show ?case by simp
next
  case (Cons month months)
  have "\<exists>r\<in>set csv. fecha_dato r \<in> set [month]" using Cons.prems by auto
  then obtain t where t: "get_data_by_month csv [month] = Inr t"
    using get_data_by_month_cases [of csv "[month]"] by auto
  have "\<exists>res. get_temp_features csv (join_month X t) months = Inr res"
    using Cons.IH Cons.prems by simp
  then show ?case using t by simp
qed

lemma get_temp_features_raises:
  assumes "\<exists>m\<in>set months. m \<notin> fecha_dato ` set csv"
  shows "get_temp_features csv X months = Inl IndexError"
  using assms
proof (induction months arbitrary: X)
  case Nil
  then show ?case by simp
next
  case (Cons month months)
  show ?case
  proof (cases "\<exists>r\<in>set csv. fecha_dato r \<in> set [month]")
    case False
    then have "get_data_by_month csv [month] = Inl IndexError"
      using get_data_by_month_cases [of csv "[month]"] by auto
    then show ?thesis by simp
  next
    case True
    then obtain t where t: "get_data_by_month csv [month] = Inr t"
      using get_data_by_month_cases [of csv "[month]"] by auto
    have "month \<in> fecha_dato ` set csv" using True by auto
    then have "\<exists>m\<in>set months. m \<notin> fecha_dato ` set csv" using Cons.prems by auto
    then have "get_temp_features csv (join_month X t) months = Inl IndexError"
      by (rule Cons.IH)
    then show ?thesis using t by simp
  qed
qed

lemma get_temp_features_rows:
  assumes "get_temp_features csv X months = Inr res"
  shows "length X \<le> length res
    \<and> (\<forall>r\<in>set X. \<exists>r'\<in>set res. extends_row (length months) r r')
    \<and> (\<forall>r'\<in>set res. \<exists>r\<in>set X. extends_row (length months) r r')
    \<and> (months \<noteq> [] \<or> no_missing X \<longrightarrow> no_missing res)"
  using assms
proof (induction months arbitrary: X)
  case Nil
  then have "res = X" by simp
  then show ?case using extends_row_refl by auto
next
  case (Cons month months)
  obtain t where t: "get_data_by_month csv [month] = Inr t"
    and rest: "get_temp_features csv (join_month X t) months = Inr res"
    using Cons.prems by (auto split: sum.splits)
  let ?J = "join_month X t"
  note ih = Cons.IH [OF rest]
  have len: "length X \<le> length res"
    using ih join_month_length [of X t] by linarith
  have keep: "\<forall>r\<in>set X. \<exists>r'\<in>set res. extends_row (length (month # months)) r r'"
  proof
    fix r assume "r \<in> set X"
    then obtain r1 where r1: "r1 \<in> set ?J" "extends_row 1 r r1"
      using join_month_keeps by blast
    then obtain r' where r': "r' \<in> set res" "extends_row (length months) r1 r'"
      using ih by blast
    have "extends_row (1 + length months) r r'" using r1(2) r'(2) by (rule extends_row_trans)
    then show "\<exists>r'\<in>set res. extends_row (length (month # months)) r r'" using r'(1) by auto
  qed
  have src: "\<forall>r'\<in>set res. \<exists>r\<in>set X. extends_row (length (month # months)) r r'"
  proof
    fix r' assume "r' \<in> set res"
    then obtain r1 where r1: "r1 \<in> set ?J" "extends_row (length months) r1 r'"
      using ih by blast
    then obtain r where r: "r \<in> set X" "extends_row 1 r r1"
      using join_month_from by blast
    have "extends_row (1 + length months) r r'" using r(2) r1(2) by (rule extends_row_trans)
    then show "\<exists>r\<in>set X. extends_row (length (month # months)) r r'" using r(1) by auto
  qed
  have nm: "no_missing res" using ih join_month_no_missing [of X t] by blast
  show ?case using len keep src nm by blast
qed

lemma get_temp_features_keys:
  assumes "get_temp_features csv X months = Inr res"
    and "\<forall>m\<in>set months. \<forall>t. get_data_by_month csv [m] = Inr t \<longrightarrow> distinct (map ncodpers t)"
  shows "map fst res = map fst X"
  using assms
proof (induction months arbitrary: X)
  case Nil
  then show ?case by simp
next
  case (Cons month months)
  obtain t where t: "get_data_by_month csv [month] = Inr t"
    and rest: "get_temp_features csv (join_month X t) months = Inr res"
    using Cons.prems(1) by (auto split: sum.splits)
  have d: "distinct (map ncodpers t)" using Cons.prems(2) t by simp
  have "map fst res = map fst (join_month X t)"
    using Cons.IH [OF rest] Cons.prems(2) by simp
  then show ?case using join_month_distinct_keys [OF d] by simp
qed

lemma join_month_exact:
  "join_month merged temp_data =
     concat (map (\<lambda>r.
        (case filter (\<lambda>p. ncodpers p = fst r) temp_data of
           [] \<Rightarrow> [(fst r, map (\<lambda>c. Some (fillna0 c)) (snd r)
                     @ replicate (length products) (Some 0))]
         | ms \<Rightarrow> map (\<lambda>p. (fst r, map (\<lambda>c. Some (fillna0 c)) (snd r)
                     @ map (\<lambda>pr. Some (fillna0 (flags p pr))) products)) ms)) merged)"
proof -
  let ?h = "\<lambda>r. (ncodpers r, flags r)"
  let ?g = "\<lambda>(k, a, b). (k, map (\<lambda>c. Some (fillna0 c)) (a @ month_cells b))"
  let ?blk = "\<lambda>(k, a). (case filter (\<lambda>(k', b). k' = k) (map ?h temp_data) of
           [] \<Rightarrow> [(k, a, None)]
         | ms \<Rightarrow> map (\<lambda>(k', b). (k, a, Some b)) ms)"
  let ?new = "\<lambda>r. (case filter (\<lambda>p. ncodpers p = fst r) temp_data of
           [] \<Rightarrow> [(fst r, map (\<lambda>c. Some (fillna0 c)) (snd r)
                     @ replicate (length products) (Some 0))]
         | ms \<Rightarrow> map (\<lambda>p. (fst r, map (\<lambda>c. Some (fillna0 c)) (snd r)
                     @ map (\<lambda>pr. Some (fillna0 (flags p pr))) products)) ms)"
  have blk: "map ?g (?blk r) = ?new r" for r
  proof -
    obtain k a where r: "r = (k, a)" by (cases r) auto
    have fm: "filter (\<lambda>(k', b). k' = k) (map ?h temp_data)
        = map ?h (filter (\<lambda>p. ncodpers p = k) temp_data)"
      by (simp add: filter_map comp_def)
    show ?thesis
      unfolding r prod.case fm fst_conv snd_conv
      by (cases "filter (\<lambda>p. ncodpers p = k) temp_data")
        (simp_all add: month_cells_def fillna0_def comp_def)
  qed
  have "join_month merged temp_data = map ?g (concat (map ?blk merged))"
    by (simp add: join_month_def merge_left_def)
  also have "\<dots> = concat (map (\<lambda>r. map ?g (?blk r)) merged)"
    by (simp add: map_concat comp_def)
  also have "\<dots> = concat (map ?new merged)" by (simp only: blk)
  finally show ?thesis .
qed

lemma join_month_present:
  assumes "r \<in> set merged" "p \<in> set temp_data" "ncodpers p = fst r"
  shows "(fst r, map (\<lambda>c. Some (fillna0 c)) (snd r)
            @ map (\<lambda>pr. Some (fillna0 (flags p pr))) products)
     \<in> set (join_month merged temp_data)"
proof -
  let ?ms = "filter (\<lambda>p. ncodpers p = fst r) temp_data"
  let ?row = "\<lambda>p. (fst r, map (\<lambda>c. Some (fillna0 c)) (snd r)
                     @ map (\<lambda>pr. Some (fillna0 (flags p pr))) products)"
  have m: "p \<in> set ?ms" using assms(2,3) by simp
  then obtain q qs where q: "?ms = q # qs" by (cases ?ms) auto
  have "?row p \<in> set (map ?row ?ms)" using m by (simp only: set_map) (rule imageI)
  then have "?row p \<in> set (case ?ms of
           [] \<Rightarrow> [(fst r, map (\<lambda>c. Some (fillna0 c)) (snd r)
                     @ replicate (length products) (Some 0))]
         | ms \<Rightarrow> map ?row ms)"
    by (simp only: q list.case)
  then show ?thesis
    unfolding join_month_exact using assms(1) by (simp only: set_concat set_map) blast
qed

lemma get_temp_features_foldl:
  assumes "get_temp_features csv X months = Inr res"
  shows "\<exists>ts. list_all2 (\<lambda>m t. get_data_by_month csv [m] = Inr t) months ts
          \<and> res = foldl join_month X ts"
  using assms
proof (induction months arbitrary: X)
  case Nil
  then show ?case by simp
next
  case (Cons month months)
  obtain t where t: "get_data_by_month csv [month] = Inr t"
    and rest: "get_temp_features csv (join_month X t) months = Inr res"
    using Cons.prems by (auto split: sum.splits)
  obtain ts where ts: "list_all2 (\<lambda>m t. get_data_by_month csv [m] = Inr t) months ts"
    "res = foldl join_month (join_month X t) ts"
    using Cons.IH [OF rest] by blast
  have "list_all2 (\<lambda>m t. get_data_by_month csv [m] = Inr t) (month # months) (t # ts)"
    using t ts(1) by simp
  moreover have "res = foldl join_month X (t # ts)" using ts(2) by simp
  ultimately show ?case by blast
qed

lemma filter_upt_first:
  assumes "filter Q [0..<n] = i0 # rest"
  shows "Q i0 \<and> i0 < n \<and> (\<forall>j<i0. \<not> Q j)"
proof -
  have mem: "i0 \<in> set (filter Q [0..<n])" using assms by simp
  have s: "sorted (i0 # rest)"
    using sorted_wrt_filter [of "(\<le>)" "[0..<n]" Q] assms by simp
  have "\<not> Q j" if "j < i0" for j
  proof
    assume "Q j"
    then have "j \<in> set (filter Q [0..<n])" using that mem by simp
    then have "j \<in> set (i0 # rest)" using assms by simp
    then have "i0 \<le> j" using s by auto
    then show False using that by simp
  qed
  then show ?thesis using mem by simp
qed

lemma length_filter_upt_nth:
  "length (filter (\<lambda>i. P (xs ! i)) [0..<length xs]) = length (filter P xs)"
proof -
  have "filter P (map (nth xs) [0..<length xs])
      = map (nth xs) (filter (P \<circ> nth xs) [0..<length xs])"
    by (rule filter_map)
  then have "filter P xs = map (nth xs) (filter (\<lambda>i. P (xs ! i)) [0..<length xs])"
    by (simp add: map_nth comp_def)
  then have "length (filter P xs) = length (filter (\<lambda>i. P (xs ! i)) [0..<length xs])"
    by (metis length_map)
  then show ?thesis by simp
qed

lemma get_data_by_month_exact:
  assumes "get_data_by_month csv ms = Inr t"
  shows "t = take (length (filter (\<lambda>r. fecha_dato r \<in> set ms) csv))
               (dropWhile (\<lambda>r. fecha_dato r \<notin> set ms) csv)"
proof -
  let ?Q = "\<lambda>i. map fecha_dato csv ! i \<in> set ms"
  let ?ids = "filter ?Q [0..<length (map fecha_dato csv)]"
  obtain i0 rest where ids: "?ids = i0 # rest"
    using assms by (cases ?ids) (simp_all add: get_data_by_month_def Let_def)
  have t: "t = take (length ?ids) (drop i0 csv)"
    using assms ids by (simp add: get_data_by_month_def Let_def)
  note raw = filter_upt_first [OF ids]
  have lt: "i0 < length csv" using raw by simp
  have at: "fecha_dato (csv ! i0) \<in> set ms" using raw lt by simp
  have before: "fecha_dato (csv ! j) \<notin> set ms" if "j < i0" for j
  proof -
    have "j < length csv" using that lt by simp
    moreover have "\<not> ?Q j" using raw that by blast
    ultimately show ?thesis by simp
  qed
  have tw: "takeWhile (\<lambda>r. fecha_dato r \<notin> set ms) csv = take i0 csv"
  proof (rule takeWhile_eq_take_P_nth)
    fix i assume "i < i0" "i < length csv"
    then show "fecha_dato (csv ! i) \<notin> set ms" using before by simp
  next
    assume "i0 < length csv"
    then show "\<not> fecha_dato (csv ! i0) \<notin> set ms" using at by simp
  qed
  have dw: "dropWhile (\<lambda>r. fecha_dato r \<notin> set ms) csv = drop i0 csv"
    using tw lt by (simp add: dropWhile_eq_drop)
  have "?ids = filter (\<lambda>i. fecha_dato (csv ! i) \<in> set ms) [0..<length csv]"
    by (rule filter_cong) simp_all
  then have n: "length ?ids = length (filter (\<lambda>r. fecha_dato r \<in> set ms) csv)"
    using length_filter_upt_nth [of "\<lambda>r. fecha_dato r \<in> set ms" csv] by simp
  show ?thesis using t dw n by simp
qed

lemma get_data_by_month_single:
  assumes "get_data_by_month csv [m] = Inr t"
  shows "t = take (length (filter (\<lambda>r. fecha_dato r = m) csv))
               (dropWhile (\<lambda>r. fecha_dato r \<noteq> m) csv)"
  using get_data_by_month_exact [OF assms] by simp

text \<open>
  C5, as stated, fails for an empty list of months: no join is made, the input table
  is returned as it is, and a missing value in it is still missing in the result.
\<close>

theorem get_temp_features_no_month_keeps_missing:
  "get_temp_features
     [\<lparr>fecha_dato = ''2015-03-28'', ncodpers = 15889, flags = (\<lambda>pr. Some 0)\<rparr>]
     [(15889, [Some 35, None])] []
   = Inr [(15889, [Some 35, None])]
   \<and> \<not> no_missing [(15889, [Some 35, None])]"
  by (simp add: no_missing_def)

text \<open>
  C5, amended. \<open>get_temp_features\<close> returns when every month of the list has a line
  in the file, and raises IndexError otherwise. When it returns, the result is the input
  table joined, month after month in the order of the list, with the table that
  \<open>get_data_by_month\<close> reads for the month (as many lines as the month has, from its
  first line on). A join is a left join on the customer id followed by \<open>fillna(0)\<close>: in
  the order of the rows of the table, a row whose customer has lines in the month gives
  one row per such line, with its own cells and then the product values of the line,
  missing ones as zero; a row whose customer has no line in the month gives one row with
  zero in every product column of the month. So every row of the input table is kept and
  extended by as many months as the list has, every row of the result extends a row of
  the input table, and the customer ids and their order are unchanged when the ids within
  each month are distinct. The table after a join has no missing value; the result has no
  missing value when the list of months is not empty, or when the input table had none.
\<close>

theorem lagged_features_keep_rows_and_fill_zero:
  "((\<forall>m\<in>set months. m \<in> fecha_dato ` set csv) \<longrightarrow>
       (\<exists>res. get_temp_features csv X months = Inr res))
   \<and> ((\<exists>m\<in>set months. m \<notin> fecha_dato ` set csv) \<longrightarrow>
       get_temp_features csv X months = Inl IndexError)
   \<and> (get_temp_features csv X months = Inr res \<longrightarrow>
       length X \<le> length res
       \<and> (\<forall>r\<in>set X. \<exists>r'\<in>set res. extends_row (length months) r r')
       \<and> (\<forall>r'\<in>set res. \<exists>r\<in>set X. extends_row (length months) r r')
       \<and> (months \<noteq> [] \<or> no_missing X \<longrightarrow> no_missing res)
       \<and> ((\<forall>m\<in>set months. \<forall>t. get_data_by_month csv [m] = Inr t \<longrightarrow> distinct (map ncodpers t))
            \<longrightarrow> map fst res = map fst X)
       \<and> (\<exists>ts. list_all2 (\<lambda>m t. get_data_by_month csv [m] = Inr t
                     \<and> t = take (length (filter (\<lambda>r. fecha_dato r = m) csv))
                              (dropWhile (\<lambda>r. fecha_dato r \<noteq> m) csv)) months ts
              \<and> res = foldl join_month X ts))
   \<and> no_missing (join_month merged temp_data)
   \<and> (\<forall>r\<in>set merged. fst r \<notin> ncodpers ` set temp_data \<longrightarrow>
         (fst r, map (\<lambda>c. Some (fillna0 c)) (snd r) @ replicate (length products) (Some 0))
           \<in> set (join_month merged temp_data))
   \<and> (\<forall>r\<in>set merged. \<forall>p\<in>set temp_data. ncodpers p = fst r \<longrightarrow>
         (fst r, map (\<lambda>c. Some (fillna0 c)) (snd r)
            @ map (\<lambda>pr. Some (fillna0 (flags p pr))) products)
           \<in> set (join_month merged temp_data))
   \<and> join_month merged temp_data =
       concat (map (\<lambda>r.
          (case filter (\<lambda>p. ncodpers p = fst r) temp_data of
             [] \<Rightarrow> [(fst r, map (\<lambda>c. Some (fillna0 c)) (snd r)
                       @ replicate (length products) (Some 0))]
           | ms \<Rightarrow> map (\<lambda>p. (fst r, map (\<lambda>c. Some (fillna0 c)) (snd r)
                       @ map (\<lambda>pr. Some (fillna0 (flags p pr))) products)) ms)) merged)"
proof (intro conjI impI)
  assume "\<forall>m\<in>set months. m \<in> fecha_dato ` set csv"
  then show "\<exists>res. get_temp_features csv X months = Inr res"
    by (rule get_temp_features_returns)
next
  assume "\<exists>m\<in>set months. m \<notin> fecha_dato ` set csv"
  then show "get_temp_features csv X months = Inl IndexError"
    by (rule get_temp_features_raises)
next
  assume r: "get_temp_features csv X months = Inr res"
  note rows = get_temp_features_rows [OF r]
  show "length X \<le> length res" using rows by blast
  show "\<forall>r\<in>set X. \<exists>r'\<in>set res. extends_row (length months) r r'" using rows by blast
  show "\<forall>r'\<in>set res. \<exists>r\<in>set X. extends_row (length months) r r'" using rows by blast
  show "no_missing res" if "months \<noteq> [] \<or> no_missing X" using rows that by blast
  show "map fst res = map fst X"
    if "\<forall>m\<in>set months. \<forall>t. get_data_by_month csv [m] = Inr t \<longrightarrow> distinct (map ncodpers t)"
    using get_temp_features_keys [OF r that] .
  obtain ts where ts: "list_all2 (\<lambda>m t. get_data_by_month csv [m] = Inr t) months ts"
    "res = foldl join_month X ts"
    using get_temp_features_foldl [OF r] by blast
  have "list_all2 (\<lambda>m t. get_data_by_month csv [m] = Inr t
                     \<and> t = take (length (filter (\<lambda>r. fecha_dato r = m) csv))
                              (dropWhile (\<lambda>r. fecha_dato r \<noteq> m) csv)) months ts"
    using ts(1) by (rule list_all2_mono) (simp add: get_data_by_month_single)
  then show "\<exists>ts. list_all2 (\<lambda>m t. get_data_by_month csv [m] = Inr t
                     \<and> t = take (length (filter (\<lambda>r. fecha_dato r = m) csv))
                              (dropWhile (\<lambda>r. fecha_dato r \<noteq> m) csv)) months ts
              \<and> res = foldl join_month X ts"
    using ts(2) by blast
next
  show "no_missing (join_month merged temp_data)" by (rule join_month_no_missing)
  show "\<forall>r\<in>set merged. fst r \<notin> ncodpers ` set temp_data \<longrightarrow>
         (fst r, map (\<lambda>c. Some (fillna0 c)) (snd r) @ replicate (length products) (Some 0))
           \<in> set (join_month merged temp_data)"
    using join_month_absent_zero [of _ _ merged temp_data] by (metis prod.collapse)
  show "\<forall>r\<in>set merged. \<forall>p\<in>set temp_data. ncodpers p = fst r \<longrightarrow>
         (fst r, map (\<lambda>c. Some (fillna0 c)) (snd r)
            @ map (\<lambda>pr. Some (fillna0 (flags p pr))) products)
           \<in> set (join_month merged temp_data)"
    using join_month_present by blast
  show "join_month merged temp_data =
       concat (map (\<lambda>r.
          (case filter (\<lambda>p. ncodpers p = fst r) temp_data of
             [] \<Rightarrow> [(fst r, map (\<lambda>c. Some (fillna0 c)) (snd r)
                       @ replicate (length products) (Some 0))]
           | ms \<Rightarrow> map (\<lambda>p. (fst r, map (\<lambda>c. Some (fillna0 c)) (snd r)
                       @ map (\<lambda>pr. Some (fillna0 (flags p pr))) products)) ms)) merged)"
    by (rule join_month_exact)
qed

theorem lagged_features_keep_rows_and_fill_zero_witness:
  "(\<exists>res. get_temp_features
       [\<lparr>fecha_dato = ''2015-03-28'', ncodpers = 15889,
          flags = (\<lambda>pr. Some 0)(''ind_recibo_ult1'' := Some 1)\<rparr>,
        \<lparr>fecha_dato = ''2015-04-28'', ncodpers = 15889,
          flags = (\<lambda>pr. Some 0)(''ind_recibo_ult1'' := Some 1, ''ind_nomina_ult1'' := None)\<rparr>,
        \<lparr>fecha_dato = ''2015-04-28'', ncodpers = 1170544, flags = (\<lambda>pr. Some 0)\<rparr>]
       [(15889, [Some 35, None]), (1050611, [Some 22, Some 1])]
       [''2015-04-28'', ''2015-03-28''] = Inr res
      \<and> no_missing res \<and> map fst res = [15889, 1050611])
   \<and> get_temp_features
       [\<lparr>fecha_dato = ''2015-03-28'', ncodpers = 15889,
          flags = (\<lambda>pr. Some 0)(''ind_recibo_ult1'' := Some 1)\<rparr>,
        \<lparr>fecha_dato = ''2015-04-28'', ncodpers = 15889,
          flags = (\<lambda>pr. Some 0)(''ind_recibo_ult1'' := Some 1, ''ind_nomina_ult1'' := None)\<rparr>,
        \<lparr>fecha_dato = ''2015-04-28'', ncodpers = 1170544, flags = (\<lambda>pr. Some 0)\<rparr>]
       [(15889, [Some 35, None]), (1050611, [Some 22, Some 1])]
       [''2015-04-28'', ''2015-02-28''] = Inl IndexError
   \<and> (15889, [Some 35, Some 0] @ replicate 23 (Some 0) @ [Some 1])
       \<in> set (join_month [(15889, [Some 35, None]), (1050611, [Some 22, Some 1])]
         [\<lparr>fecha_dato = ''2015-04-28'', ncodpers = 15889,
            flags = (\<lambda>pr. Some 0)(''ind_recibo_ult1'' := Some 1, ''ind_nomina_ult1'' := None)\<rparr>,
          \<lparr>fecha_dato = ''2015-04-28'', ncodpers = 1170544, flags = (\<lambda>pr. Some 0)\<rparr>])"
proof -
  let ?r1 = "\<lparr>fecha_dato = ''2015-03-28'', ncodpers = 15889,
          flags = (\<lambda>pr. Some (0 :: real))(''ind_recibo_ult1'' := Some 1)\<rparr>"
  let ?r2 = "\<lparr>fecha_dato = ''2015-04-28'', ncodpers = 15889,
          flags = (\<lambda>pr. Some (0 :: real))(''ind_recibo_ult1'' := Some 1, ''ind_nomina_ult1'' := None)\<rparr>"
  let ?r3 = "\<lparr>fecha_dato = ''2015-04-28'', ncodpers = 1170544, flags = (\<lambda>pr. Some (0 :: real))\<rparr>"
  let ?csv = "[?r1, ?r2, ?r3]"
  let ?X = "[(15889 :: int, [Some (35 :: real), None]), (1050611, [Some 22, Some 1])]"
  let ?ms = "[''2015-04-28'', ''2015-03-28'']"
  let ?bad = "[''2015-04-28'', ''2015-02-28'']"
  have all: "\<forall>m\<in>set ?ms. m \<in> fecha_dato ` set ?csv" by simp
  have some: "\<exists>m\<in>set ?bad. m \<notin> fecha_dato ` set ?csv" by simp
  have g4: "get_data_by_month ?csv [''2015-04-28''] = Inr [?r2, ?r3]"
    by (simp add: get_data_by_month_def Let_def upt_conv_Cons)
  have g3: "get_data_by_month ?csv [''2015-03-28''] = Inr [?r1]"
    by (simp add: get_data_by_month_def Let_def upt_conv_Cons)
  have dk: "\<forall>m\<in>set ?ms. \<forall>t. get_data_by_month ?csv [m] = Inr t \<longrightarrow> distinct (map ncodpers t)"
    using g4 g3 by auto
  have ne: "?ms \<noteq> [] \<or> no_missing ?X" by simp
  obtain res where res: "get_temp_features ?csv ?X ?ms = Inr res"
    using lagged_features_keep_rows_and_fill_zero [of ?ms ?csv ?X] all by blast
  have "no_missing res" "map fst res = map fst ?X"
    using lagged_features_keep_rows_and_fill_zero [of ?ms ?csv ?X res] res ne dk by blast+
  then have a: "\<exists>res. get_temp_features ?csv ?X ?ms = Inr res \<and> no_missing res
      \<and> map fst res = [15889, 1050611]"
    using res by simp
  have b: "get_temp_features ?csv ?X ?bad = Inl IndexError"
    using lagged_features_keep_rows_and_fill_zero [of ?bad ?csv ?X] some by blast
  have pres: "\<forall>r\<in>set ?X. \<forall>p\<in>set [?r2, ?r3]. ncodpers p = fst r \<longrightarrow>
         (fst r, map (\<lambda>c. Some (fillna0 c)) (snd r)
            @ map (\<lambda>pr. Some (fillna0 (flags p pr))) products)
           \<in> set (join_month ?X [?r2, ?r3])"
    using lagged_features_keep_rows_and_fill_zero [of ?ms ?csv ?X res ?X "[?r2, ?r3]"] by blast
  have rX: "(15889, [Some 35, None]) \<in> set ?X" by simp
  have pT: "?r2 \<in> set [?r2, ?r3]" by simp
  have k: "ncodpers ?r2 = fst (15889 :: int, [Some (35 :: real), None])" by simp
  have cells: "map (\<lambda>c. Some (fillna0 c)) (snd (15889 :: int, [Some (35 :: real), None]))
            @ map (\<lambda>pr. Some (fillna0 (flags ?r2 pr))) products
      = [Some 35, Some 0] @ replicate 23 (Some 0) @ [Some 1]"
    by (simp add: products_def fillna0_def eval_nat_numeral)
  have "(fst (15889 :: int, [Some (35 :: real), None]),
         map (\<lambda>c. Some (fillna0 c)) (snd (15889 :: int, [Some (35 :: real), None]))
            @ map (\<lambda>pr. Some (fillna0 (flags ?r2 pr))) products)
      \<in> set (join_month ?X [?r2, ?r3])"
    using pres rX pT k by blast
  then have c: "(15889, [Some 35, Some 0] @ replicate 23 (Some 0) @ [Some 1])
      \<in> set (join_month ?X [?r2, ?r3])"
    unfolding cells by (simp only: fst_conv)
  show ?thesis using a b c by blast
qed

section \<open>Imputation of renta by segment\<close>

lemma impute_map_length:
  "length (map (\<lambda>(r, s). if r = None \<and> s = seg then med else r) (zip rs segs))
     = min (length rs) (length segs)"
  by simp

lemma impute_map_filter_other:
  assumes "seg' \<noteq> seg"
  shows "map fst (filter (\<lambda>(r, s). s = seg')
           (zip (map (\<lambda>(r, s). if r = None \<and> s = seg then med else r) (zip rs segs)) segs))
       = map fst (filter (\<lambda>(r, s). s = seg') (zip rs segs))"
proof (induction rs arbitrary: segs)
  case Nil
  show ?case by simp
next
  case (Cons r rs)
  show ?case
  proof (cases segs)
    case Nil
    then show ?thesis by simp
  next
    case (Cons s ss)
    then show ?thesis using Cons.IH [of ss] assms by simp
  qed
qed

lemma segment_renta_other:
  assumes "seg' \<noteq> seg"
  shows "segment_renta segs (impute_segment segs seg rs) seg' = segment_renta segs rs seg'"
  unfolding segment_renta_def impute_segment_def Let_def
  by (simp only: impute_map_filter_other [OF assms])

lemma impute_segment_length:
  "length rs = length segs \<Longrightarrow> length (impute_segment segs seg rs) = length segs"
  by (simp add: impute_segment_def Let_def)

lemma impute_segment_nth:
  assumes "length rs = length segs" "i < length rs"
  shows "impute_segment segs seg rs ! i =
     (if rs ! i = None \<and> segs ! i = seg then median (segment_renta segs rs seg) else rs ! i)"
  using assms by (simp add: impute_segment_def Let_def)

lemma fold_impute_segment:
  assumes "length rs = length segs" "distinct us"
  shows "length (fold (impute_segment segs) us rs) = length segs
    \<and> (\<forall>i<length rs. fold (impute_segment segs) us rs ! i =
          (if rs ! i = None \<and> segs ! i \<in> set us
           then median (segment_renta segs rs (segs ! i)) else rs ! i))"
  using assms
proof (induction us arbitrary: rs)
  case Nil
  then show ?case by simp
next
  case (Cons u us)
  let ?rs1 = "impute_segment segs u rs"
  have l1: "length ?rs1 = length segs" using Cons.prems(1) by (rule impute_segment_length)
  have d: "distinct us" "u \<notin> set us" using Cons.prems(2) by simp_all
  note ih = Cons.IH [OF l1 d(1)]
  have len: "length (fold (impute_segment segs) (u # us) rs) = length segs" using ih by simp
  have nth: "fold (impute_segment segs) (u # us) rs ! i =
          (if rs ! i = None \<and> segs ! i \<in> set (u # us)
           then median (segment_renta segs rs (segs ! i)) else rs ! i)"
    if i: "i < length rs" for i
  proof -
    have i1: "i < length ?rs1" using i l1 Cons.prems(1) by simp
    have f: "fold (impute_segment segs) (u # us) rs ! i =
          (if ?rs1 ! i = None \<and> segs ! i \<in> set us
           then median (segment_renta segs ?rs1 (segs ! i)) else ?rs1 ! i)"
      using ih i1 by simp
    have r1: "?rs1 ! i =
        (if rs ! i = None \<and> segs ! i = u then median (segment_renta segs rs u) else rs ! i)"
      using impute_segment_nth [OF Cons.prems(1) i] .
    show ?thesis
    proof (cases "segs ! i = u")
      case True
      then have "segs ! i \<notin> set us" using d(2) by simp
      then show ?thesis using f r1 True by simp
    next
      case False
      then have "segment_renta segs ?rs1 (segs ! i) = segment_renta segs rs (segs ! i)"
        by (rule segment_renta_other)
      then show ?thesis using f r1 False by simp
    qed
  qed
  show ?case using len nth by blast
qed

lemma impute_renta_nth:
  assumes "length rs = length segs"
  shows "length (impute_renta segs rs) = length segs
    \<and> (\<forall>i<length rs. impute_renta segs rs ! i =
          (case rs ! i of Some v \<Rightarrow> Some v
           | None \<Rightarrow> median (segment_renta segs rs (segs ! i))))"
proof -
  have d: "distinct (unique segs)" by (simp add: unique_def distinct_unique_from)
  have s: "set (unique segs) = set segs" by (simp add: unique_def set_unique_from)
  note f = fold_impute_segment [OF assms d]
  have "impute_renta segs rs ! i =
          (case rs ! i of Some v \<Rightarrow> Some v
           | None \<Rightarrow> median (segment_renta segs rs (segs ! i)))" if "i < length rs" for i
  proof -
    have "segs ! i \<in> set (unique segs)" using that assms s by simp
    then show ?thesis using f that by (cases "rs ! i") (simp_all add: impute_renta_def)
  qed
  then show ?thesis using f by (simp add: impute_renta_def)
qed

lemma set_segment_renta:
  assumes "length rs = length segs"
  shows "set (segment_renta segs rs seg) = {v. \<exists>j<length rs. rs ! j = Some v \<and> segs ! j = seg}"
proof -
  have "set (segment_renta segs rs seg) =
      {v. \<exists>p\<in>set (zip rs segs). fst p = Some v \<and> snd p = seg}"
    by (force simp: segment_renta_def observed_def split: option.splits)
  also have "\<dots> = {v. \<exists>j<length rs. rs ! j = Some v \<and> segs ! j = seg}"
  proof -
    have "(\<exists>p\<in>set (zip rs segs). fst p = Some v \<and> snd p = seg)
        \<longleftrightarrow> (\<exists>j<length rs. rs ! j = Some v \<and> segs ! j = seg)" for v
    proof
      assume "\<exists>p\<in>set (zip rs segs). fst p = Some v \<and> snd p = seg"
      then obtain p where p: "p \<in> set (zip rs segs)" "fst p = Some v" "snd p = seg" by blast
      then obtain n where "rs ! n = fst p" "segs ! n = snd p" "n < length rs"
        using in_set_zip [of p rs segs] by blast
      then show "\<exists>j<length rs. rs ! j = Some v \<and> segs ! j = seg" using p by auto
    next
      assume "\<exists>j<length rs. rs ! j = Some v \<and> segs ! j = seg"
      then obtain j where j: "j < length rs" "rs ! j = Some v" "segs ! j = seg" by blast
      then have "(Some v, seg) \<in> set (zip rs segs)"
        using assms in_set_zip [of "(Some v, seg)" rs segs] by auto
      then show "\<exists>p\<in>set (zip rs segs). fst p = Some v \<and> snd p = seg" by force
    qed
    then show ?thesis by simp
  qed
  finally show ?thesis .
qed

lemma get_features_data_Inr:
  assumes "get_features_data parse data = Inr d"
  obtains ant ag where "parse_int_column (antiguedad data) = Inr ant"
    "parse_int_column (age data) = Inr ag"
    "antiguedad d = fillna (median (observed (replace_negative ant))) (replace_negative ant)"
    "age d = fillna (median (observed ag)) ag"
    "cod_prov d = fillna (Some 99) (cod_prov data)"
    "segmento d = map (\<lambda>s. take 2 (case s of None \<Rightarrow> ''02 - PARTICULARES'' | Some x \<Rightarrow> x))
        (segmento data)"
    "renta d = impute_renta (segmento d) (map (to_numeric_coerce parse) (renta data))"
proof -
  obtain ant where a: "parse_int_column (antiguedad data) = Inr ant"
    using assms by (cases "parse_int_column (antiguedad data)") (simp_all add: get_features_data_def)
  obtain ag where g: "parse_int_column (age data) = Inr ag"
    using assms a by (cases "parse_int_column (age data)") (simp_all add: get_features_data_def)
  have d: "d = \<lparr>antiguedad = fillna (median (observed (replace_negative ant))) (replace_negative ant),
      age = fillna (median (observed ag)) ag,
      cod_prov = fillna (Some 99) (cod_prov data),
      renta = impute_renta
        (map (\<lambda>s. take 2 (case s of None \<Rightarrow> ''02 - PARTICULARES'' | Some x \<Rightarrow> x)) (segmento data))
        (map (to_numeric_coerce parse) (renta data)),
      segmento = map (\<lambda>s. take 2 (case s of None \<Rightarrow> ''02 - PARTICULARES'' | Some x \<Rightarrow> x))
        (segmento data)\<rparr>"
    using assms a g by (simp add: get_features_data_def Let_def)
  show ?thesis by (rule that [OF a g]) (simp_all add: d)
qed

text \<open>
  C3. When \<open>get_features\<close> gets through its imputation steps: the segment of a record
  is the first two characters of its segmento value (\<open>02 - PARTICULARES\<close> when that is
  missing), and a record whose renta is missing after the numeric coercion gets the
  median of the renta values, not missing after the coercion, of the records of the same
  segment (it stays missing when the segment has no such value); a record whose renta is
  a number keeps it.
\<close>

theorem renta_imputed_with_segment_median:
  assumes "get_features_data parse data = Inr d"
    and "length (renta data) = length (segmento data)"
  shows "segmento d = map (\<lambda>s. take 2 (case s of None \<Rightarrow> ''02 - PARTICULARES'' | Some x \<Rightarrow> x))
        (segmento data)
    \<and> length (renta d) = length (renta data)
    \<and> (\<forall>i<length (renta data).
          renta d ! i =
            (case to_numeric_coerce parse (renta data ! i) of
               Some v \<Rightarrow> Some v
             | None \<Rightarrow> median (segment_renta (segmento d)
                         (map (to_numeric_coerce parse) (renta data)) (segmento d ! i))))
    \<and> (\<forall>seg. set (segment_renta (segmento d) (map (to_numeric_coerce parse) (renta data)) seg)
          = {v. \<exists>j<length (renta data).
                  to_numeric_coerce parse (renta data ! j) = Some v \<and> segmento d ! j = seg})"
proof -
  let ?rs = "map (to_numeric_coerce parse) (renta data)"
  obtain ant ag where
    s: "segmento d = map (\<lambda>s. take 2 (case s of None \<Rightarrow> ''02 - PARTICULARES'' | Some x \<Rightarrow> x))
        (segmento data)"
    and r: "renta d = impute_renta (segmento d) ?rs"
    using assms(1) by (rule get_features_data_Inr)
  have l: "length ?rs = length (segmento d)" using assms(2) s by simp
  note n = impute_renta_nth [OF l]
  have c2: "length (renta d) = length (renta data)" using n r l by simp
  have c3: "\<forall>i<length (renta data).
          renta d ! i =
            (case to_numeric_coerce parse (renta data ! i) of
               Some v \<Rightarrow> Some v
             | None \<Rightarrow> median (segment_renta (segmento d) ?rs (segmento d ! i)))"
    using n r by simp
  have c4: "\<forall>seg. set (segment_renta (segmento d) ?rs seg)
          = {v. \<exists>j<length (renta data).
                  to_numeric_coerce parse (renta data ! j) = Some v \<and> segmento d ! j = seg}"
  proof
    fix seg
    have "set (segment_renta (segmento d) ?rs seg)
        = {v. \<exists>j<length ?rs. ?rs ! j = Some v \<and> segmento d ! j = seg}"
      using l by (rule set_segment_renta)
    also have "\<dots> = {v. \<exists>j<length (renta data).
                  to_numeric_coerce parse (renta data ! j) = Some v \<and> segmento d ! j = seg}"
      by auto
    finally show "set (segment_renta (segmento d) ?rs seg)
          = {v. \<exists>j<length (renta data).
                  to_numeric_coerce parse (renta data ! j) = Some v \<and> segmento d ! j = seg}" .
  qed
  show ?thesis using s c2 c3 c4 by blast
qed

theorem renta_imputed_with_segment_median_witness:
  "\<exists>d. get_features_data (\<lambda>s. if s = ''122179.11'' then Some 122179.11 else None)
         \<lparr>antiguedad = Numeric [Some 6, Some 35, None, Some 12],
          age = Object [Some '' 23'', Some ''NA'', Some '' 40'', Some ''56''],
          cod_prov = [Some 28, None, Some 8, Some 28],
          renta = [Num 87218.1, Str ''         NA'', NaN, Str ''122179.11''],
          segmento = [Some ''02 - PARTICULARES'', Some ''03 - UNIVERSITARIO'', None,
                      Some ''02 - PARTICULARES'']\<rparr> = Inr d
      \<and> segmento d = [''02'', ''03'', ''02'', ''02'']
      \<and> renta d ! 0 = Some 87218.1 \<and> renta d ! 1 = None
      \<and> renta d ! 2 = Some 104698.605 \<and> renta d ! 3 = Some 122179.11"
proof -
  let ?parse = "\<lambda>s. if s = ''122179.11'' then Some (122179.11 :: real) else None"
  let ?data = "\<lparr>antiguedad = Numeric [Some 6, Some 35, None, Some 12],
          age = Object [Some '' 23'', Some ''NA'', Some '' 40'', Some ''56''],
          cod_prov = [Some 28, None, Some 8, Some 28],
          renta = [Num 87218.1, Str ''         NA'', NaN, Str ''122179.11''],
          segmento = [Some ''02 - PARTICULARES'', Some ''03 - UNIVERSITARIO'', None,
                      Some ''02 - PARTICULARES'']\<rparr>"
  have pa: "parse_int_column (antiguedad ?data) = Inr [Some 6, Some 35, None, Some 12]"
    by (simp add: parse_int_column_def)
  have pg: "parse_int_column (age ?data) = Inr [Some 23, None, Some 40, Some 56]"
    by (simp add: parse_int_column_def parse_int_entry_def py_int_def strip_def strip_by_def is_space_def int_space_def
        digit_of_def digits_value_def upt_conv_Cons)
  obtain d where d: "get_features_data ?parse ?data = Inr d"
    using pa pg by (simp add: get_features_data_def Let_def)
  have len: "length (renta ?data) = length (segmento ?data)" by simp
  note t = renta_imputed_with_segment_median [OF d len]
  have s: "segmento d = [''02'', ''03'', ''02'', ''02'']" using t by simp
  have c3: "\<forall>i<length (renta ?data).
          renta d ! i =
            (case to_numeric_coerce ?parse (renta ?data ! i) of
               Some v \<Rightarrow> Some v
             | None \<Rightarrow> median (segment_renta (segmento d)
                         (map (to_numeric_coerce ?parse) (renta ?data)) (segmento d ! i)))"
    using t by blast
  have r0: "renta d ! 0 = Some 87218.1"
    using c3 [rule_format, of 0] by (simp add: to_numeric_coerce_def)
  have r1: "renta d ! 1 = None"
    using c3 [rule_format, of 1]
    by (simp add: to_numeric_coerce_def s segment_renta_def observed_def median_def)
  have r2: "renta d ! 2 = Some 104698.605"
    using c3 [rule_format, of 2]
    by (simp add: to_numeric_coerce_def s segment_renta_def observed_def median_def)
  have r3: "renta d ! 3 = Some 122179.11"
    using c3 [rule_format, of 3] by (simp add: to_numeric_coerce_def)
  show ?thesis using d s r0 r1 r2 r3 by blast
qed

section \<open>Imputation of the other columns and malformed input\<close>

lemma traverse_Inr_all:
  "traverse f xs = Inr vs \<Longrightarrow> \<forall>x\<in>set xs. \<exists>v. f x = Inr v"
  by (induction xs arbitrary: vs) (auto split: sum.splits)

lemma traverse_all_Inr_ex:
  "\<forall>x\<in>set xs. \<exists>v. f x = Inr v \<Longrightarrow> \<exists>vs. traverse f xs = Inr vs"
  by (induction xs) (auto split: sum.splits)

lemma traverse_Inl_some:
  "traverse f xs = Inl e \<Longrightarrow> \<exists>x\<in>set xs. f x = Inl e"
  by (induction xs) (auto split: sum.splits)

lemma py_int_error: "py_int s = Inl e \<Longrightarrow> e = ValueError"
  by (simp add: py_int_def Let_def split: if_splits)

lemma parse_int_entry_error: "parse_int_entry x = Inl e \<Longrightarrow> e = ValueError"
  by (auto simp: parse_int_entry_def split: option.splits if_splits sum.splits dest: py_int_error)

lemma parse_int_column_cases:
  "(if \<forall>xs. col = Object xs \<longrightarrow> (\<forall>x\<in>set xs. \<exists>v. parse_int_entry x = Inr v)
    then \<exists>vs. parse_int_column col = Inr vs
    else parse_int_column col = Inl ValueError)"
proof (cases col)
  case (Numeric vs)
  then show ?thesis by (simp add: parse_int_column_def)
next
  case (Object xs)
  show ?thesis
  proof (cases "\<forall>x\<in>set xs. \<exists>v. parse_int_entry x = Inr v")
    case True
    then show ?thesis
      using traverse_all_Inr_ex [of xs parse_int_entry] Object by (simp add: parse_int_column_def)
  next
    case False
    have "\<not> (\<exists>vs. traverse parse_int_entry xs = Inr vs)"
      using False traverse_Inr_all [of parse_int_entry xs] by blast
    then obtain e where e: "traverse parse_int_entry xs = Inl e"
      by (cases "traverse parse_int_entry xs") auto
    then obtain x where "x \<in> set xs" "parse_int_entry x = Inl e"
      using traverse_Inl_some by blast
    then have "e = ValueError" using parse_int_entry_error by blast
    then show ?thesis using e False Object by (simp add: parse_int_column_def)
  qed
qed

lemma get_features_data_cases:
  "(if (\<forall>xs. antiguedad data = Object xs \<longrightarrow> (\<forall>x\<in>set xs. \<exists>v. parse_int_entry x = Inr v))
       \<and> (\<forall>xs. age data = Object xs \<longrightarrow> (\<forall>x\<in>set xs. \<exists>v. parse_int_entry x = Inr v))
    then \<exists>d. get_features_data parse data = Inr d
    else get_features_data parse data = Inl ValueError)"
proof (cases "\<forall>xs. antiguedad data = Object xs \<longrightarrow> (\<forall>x\<in>set xs. \<exists>v. parse_int_entry x = Inr v)")
  case False
  then have "parse_int_column (antiguedad data) = Inl ValueError"
    using parse_int_column_cases [of "antiguedad data"] by presburger
  then show ?thesis using False by (simp add: get_features_data_def)
next
  case a: True
  then obtain ant where ant: "parse_int_column (antiguedad data) = Inr ant"
    using parse_int_column_cases [of "antiguedad data"] by presburger
  show ?thesis
  proof (cases "\<forall>xs. age data = Object xs \<longrightarrow> (\<forall>x\<in>set xs. \<exists>v. parse_int_entry x = Inr v)")
    case False
    then have "parse_int_column (age data) = Inl ValueError"
      using parse_int_column_cases [of "age data"] by presburger
    then show ?thesis using False ant by (simp add: get_features_data_def)
  next
    case True
    then obtain ag where "parse_int_column (age data) = Inr ag"
      using parse_int_column_cases [of "age data"] by presburger
    then have "\<exists>d. get_features_data parse data = Inr d"
      using ant by (simp add: get_features_data_def Let_def)
    then show ?thesis using a True by presburger
  qed
qed

text \<open>
  C6, as stated, fails: \<open>get_features\<close> does raise on malformed numeric input. An age
  column read as text with an entry that is neither \<open>NA\<close> nor an integer literal
  makes \<open>int(x)\<close> raise ValueError.
\<close>

theorem get_features_raises_on_malformed_age:
  "get_features_data (\<lambda>s. None)
     \<lparr>antiguedad = Numeric [Some 6, Some 35, Some 12],
      age = Object [Some '' 23'', Some '' NA'', Some ''abc''],
      cod_prov = [Some 28, None, Some 8],
      renta = [Num 87218.1, NaN, Num 122179.11],
      segmento = [Some ''02 - PARTICULARES'', Some ''03 - UNIVERSITARIO'', None]\<rparr>
   = Inl ValueError"
proof -
  have "parse_int_column (Object [Some '' 23'', Some '' NA'', Some ''abc'']) = Inl ValueError"
    by (simp add: parse_int_column_def parse_int_entry_def py_int_def strip_def strip_by_def is_space_def int_space_def
        digit_of_def digits_value_def upt_conv_Cons)
  then show ?thesis by (simp add: get_features_data_def parse_int_column_def)
qed

text \<open>
  C6, amended. A malformed renta value never makes \<open>get_features\<close> raise: a renta
  string that the numeric parser rejects is coerced to missing and then imputed with
  the median of its segment. The imputation steps raise (ValueError) exactly when the
  age or the antiguedad column is read as text and holds an entry that is not a string,
  or a string that after stripping is neither \<open>NA\<close> nor an integer literal. When they
  return: missing cod_prov is 99; a missing age (NaN, or \<open>NA\<close> in a text column) is the
  median of the observed ages; in antiguedad the negative values are first replaced by
  the maximum of the column, and a missing value is then the median of the column so
  adjusted.
\<close>

theorem get_features_imputation_amended:
  "(if (\<forall>xs. antiguedad data = Object xs \<longrightarrow> (\<forall>x\<in>set xs. \<exists>v. parse_int_entry x = Inr v))
       \<and> (\<forall>xs. age data = Object xs \<longrightarrow> (\<forall>x\<in>set xs. \<exists>v. parse_int_entry x = Inr v))
    then \<exists>d. get_features_data parse data = Inr d
    else get_features_data parse data = Inl ValueError)
   \<and> (get_features_data parse data = Inr d \<longrightarrow>
        (\<exists>ant ag. parse_int_column (antiguedad data) = Inr ant
           \<and> parse_int_column (age data) = Inr ag
           \<and> antiguedad d =
               map (\<lambda>c. case c of None \<Rightarrow> median (observed (replace_negative ant)) | Some v \<Rightarrow> Some v)
                 (replace_negative ant)
           \<and> age d = map (\<lambda>c. case c of None \<Rightarrow> median (observed ag) | Some v \<Rightarrow> Some v) ag)
        \<and> cod_prov d = map (\<lambda>c. case c of None \<Rightarrow> Some 99 | Some v \<Rightarrow> Some v) (cod_prov data)
        \<and> (length (renta data) = length (segmento data) \<longrightarrow>
             (\<forall>i<length (renta data). to_numeric_coerce parse (renta data ! i) = None \<longrightarrow>
                renta d ! i = median (segment_renta (segmento d)
                                (map (to_numeric_coerce parse) (renta data)) (segmento d ! i)))))
   \<and> (\<forall>s. parse s = None \<longrightarrow> to_numeric_coerce parse (Str s) = None)"
proof (intro conjI impI allI)
  show "if (\<forall>xs. antiguedad data = Object xs \<longrightarrow> (\<forall>x\<in>set xs. \<exists>v. parse_int_entry x = Inr v))
       \<and> (\<forall>xs. age data = Object xs \<longrightarrow> (\<forall>x\<in>set xs. \<exists>v. parse_int_entry x = Inr v))
    then \<exists>d. get_features_data parse data = Inr d
    else get_features_data parse data = Inl ValueError"
    by (rule get_features_data_cases)
next
  assume r: "get_features_data parse data = Inr d"
  obtain ant ag where f: "parse_int_column (antiguedad data) = Inr ant"
    "parse_int_column (age data) = Inr ag"
    "antiguedad d = fillna (median (observed (replace_negative ant))) (replace_negative ant)"
    "age d = fillna (median (observed ag)) ag"
    "cod_prov d = fillna (Some 99) (cod_prov data)"
    "segmento d = map (\<lambda>s. take 2 (case s of None \<Rightarrow> ''02 - PARTICULARES'' | Some x \<Rightarrow> x))
        (segmento data)"
    "renta d = impute_renta (segmento d) (map (to_numeric_coerce parse) (renta data))"
    using r by (rule get_features_data_Inr)
  show "\<exists>ant ag. parse_int_column (antiguedad data) = Inr ant
           \<and> parse_int_column (age data) = Inr ag
           \<and> antiguedad d =
               map (\<lambda>c. case c of None \<Rightarrow> median (observed (replace_negative ant)) | Some v \<Rightarrow> Some v)
                 (replace_negative ant)
           \<and> age d = map (\<lambda>c. case c of None \<Rightarrow> median (observed ag) | Some v \<Rightarrow> Some v) ag"
    using f(1-4) by (auto simp: fillna_def)
  show "cod_prov d = map (\<lambda>c. case c of None \<Rightarrow> Some 99 | Some v \<Rightarrow> Some v) (cod_prov data)"
    using f(5) by (simp add: fillna_def)
  show "renta d ! i = median (segment_renta (segmento d)
                                (map (to_numeric_coerce parse) (renta data)) (segmento d ! i))"
    if l: "length (renta data) = length (segmento data)" and i: "i < length (renta data)"
      and n: "to_numeric_coerce parse (renta data ! i) = None" for i
  proof -
    have "length (map (to_numeric_coerce parse) (renta data)) = length (segmento d)"
      using l f(6) by simp
    then show ?thesis
      using impute_renta_nth [of "map (to_numeric_coerce parse) (renta data)" "segmento d"] i n f(7)
      by simp
  qed
next
  fix s assume "parse s = None"
  then show "to_numeric_coerce parse (Str s) = None" by (simp add: to_numeric_coerce_def)
qed

theorem get_features_imputation_amended_witness:
  "\<exists>d. get_features_data (\<lambda>s. if s = ''122179.11'' then Some 122179.11 else None)
         \<lparr>antiguedad = Object [Some ''      6'', Some ''-999999'', Some ''NA'', Some '' 35''],
          age = Object [Some '' 23'', Some '' NA'', Some [CHR 0x1C, CHR ''4'', CHR ''0'', CHR 0xA0], Some ''56''],
          cod_prov = [Some 28, None, Some 8, Some 28],
          renta = [Num 87218.1, Str ''         NA'', NaN, Str ''122179.11''],
          segmento = [Some ''02 - PARTICULARES'', Some ''03 - UNIVERSITARIO'', None,
                      Some ''02 - PARTICULARES'']\<rparr> = Inr d
      \<and> antiguedad d = [Some 6, Some 35, Some 35, Some 35]
      \<and> age d = [Some 23, Some 40, Some 40, Some 56]
      \<and> cod_prov d = [Some 28, Some 99, Some 8, Some 28]
      \<and> renta d ! 1 = None \<and> renta d ! 2 = Some 104698.605"
proof -
  let ?parse = "\<lambda>s. if s = ''122179.11'' then Some (122179.11 :: real) else None"
  let ?data = "\<lparr>antiguedad = Object [Some ''      6'', Some ''-999999'', Some ''NA'', Some '' 35''],
          age = Object [Some '' 23'', Some '' NA'', Some [CHR 0x1C, CHR ''4'', CHR ''0'', CHR 0xA0], Some ''56''],
          cod_prov = [Some 28, None, Some 8, Some 28],
          renta = [Num 87218.1, Str ''         NA'', NaN, Str ''122179.11''],
          segmento = [Some ''02 - PARTICULARES'', Some ''03 - UNIVERSITARIO'', None,
                      Some ''02 - PARTICULARES'']\<rparr>"
  have pa: "parse_int_column (antiguedad ?data) = Inr [Some 6, Some (- 999999), None, Some 35]"
    by (simp add: parse_int_column_def parse_int_entry_def py_int_def strip_def strip_by_def is_space_def int_space_def
        digit_of_def digits_value_def upt_conv_Cons)
  have pg: "parse_int_column (age ?data) = Inr [Some 23, None, Some 40, Some 56]"
    by (simp add: parse_int_column_def parse_int_entry_def py_int_def strip_def strip_by_def is_space_def int_space_def
        digit_of_def digits_value_def upt_conv_Cons)
  obtain d where d: "get_features_data ?parse ?data = Inr d"
    using pa pg by (simp add: get_features_data_def Let_def)
  note t = get_features_imputation_amended [of ?data ?parse d]
  obtain ant ag where f: "parse_int_column (antiguedad ?data) = Inr ant"
    "parse_int_column (age ?data) = Inr ag"
    "antiguedad d =
       map (\<lambda>c. case c of None \<Rightarrow> median (observed (replace_negative ant)) | Some v \<Rightarrow> Some v)
         (replace_negative ant)"
    "age d = map (\<lambda>c. case c of None \<Rightarrow> median (observed ag) | Some v \<Rightarrow> Some v) ag"
    using t d by blast
  have ant: "ant = [Some 6, Some (- 999999), None, Some 35]" using f(1) pa by simp
  have ag: "ag = [Some 23, None, Some 40, Some 56]" using f(2) pg by simp
  have rn: "replace_negative [Some 6, Some (- 999999), None, Some 35] = [Some 6, Some 35, None, Some 35]"
    by (simp add: replace_negative_def column_max_def observed_def py_max_def)
  have a: "antiguedad d = [Some 6, Some 35, Some 35, Some 35]"
    using f(3) unfolding ant rn by (simp add: observed_def median_def)
  have g: "age d = [Some 23, Some 40, Some 40, Some 56]"
    using f(4) unfolding ag by (simp add: observed_def median_def)
  have c: "cod_prov d = [Some 28, Some 99, Some 8, Some 28]" using t d by simp
  have s: "segmento d = [''02'', ''03'', ''02'', ''02'']"
    using d by (rule get_features_data_Inr) simp
  have len: "length (renta ?data) = length (segmento ?data)" by simp
  have r: "\<forall>i<length (renta ?data). to_numeric_coerce ?parse (renta ?data ! i) = None \<longrightarrow>
      renta d ! i = median (segment_renta (segmento d)
          (map (to_numeric_coerce ?parse) (renta ?data)) (segmento d ! i))"
    using t d len by blast
  have r1: "renta d ! 1 = None"
    using r [rule_format, of 1]
    by (simp add: to_numeric_coerce_def s segment_renta_def observed_def median_def)
  have r2: "renta d ! 2 = Some 104698.605"
    using r [rule_format, of 2]
    by (simp add: to_numeric_coerce_def s segment_renta_def observed_def median_def)
  show ?thesis using d a g c r1 r2 by blast
qed

end
